theory Spec2Isabelle
  imports Main "HOL-Library.Word" "HOL-Library.Multiset"
begin

unbundle bit_operations_syntax

section \<open>Data model\<close>

text \<open>
  The C types of \<^verbatim>\<open>netdb.c\<close>. An \<^verbatim>\<open>ip6_addr_t\<close> is \<^verbatim>\<open>u32_t addr[4]\<close> plus a zone
  byte. The four words are stored in network byte order, and every comparison of the
  source wraps its mask and its constant in \<^verbatim>\<open>PP_HTONL\<close>; the model keeps each word as the
  number of its 32-bit group (what \<^verbatim>\<open>lwip_ntohl(addr[i])\<close> reads, and what the tests pass
  to \<^verbatim>\<open>IPADDR6_INIT_HOST\<close>), so the masks and constants appear without \<^verbatim>\<open>PP_HTONL\<close>.
  An \<^verbatim>\<open>ip_addr_t\<close> is the union of both families tagged by its \<^verbatim>\<open>type\<close> field.
\<close>

type_synonym u8_t = "8 word"
type_synonym u16_t = "16 word"
type_synonym u32_t = "32 word"
type_synonym s32_t = "32 word"

record ip6_addr_t =
  addr0 :: u32_t
  addr1 :: u32_t
  addr2 :: u32_t
  addr3 :: u32_t
  zone :: u8_t

datatype ip_addr_t = IPADDR_TYPE_V4 u32_t | IPADDR_TYPE_V6 ip6_addr_t

subsection \<open>Prefix predicates defined in netdb.c\<close>

definition ip6_addr_isipv4compatibleipv6 :: "ip6_addr_t \<Rightarrow> bool" where
  "ip6_addr_isipv4compatibleipv6 ip6addr \<longleftrightarrow>
     addr0 ip6addr = 0 \<and> addr1 ip6addr = 0 \<and> addr2 ip6addr = 0x00000000"

definition ip6_addr_is6to4 :: "ip6_addr_t \<Rightarrow> bool" where
  "ip6_addr_is6to4 ip6addr \<longleftrightarrow> (addr0 ip6addr AND 0xffff0000) = 0x20020000"

definition ip6_addr_isteredo :: "ip6_addr_t \<Rightarrow> bool" where
  "ip6_addr_isteredo ip6addr \<longleftrightarrow> (addr0 ip6addr AND 0xffffffff) = 0x20010000"

definition ip6_addr_is6bone :: "ip6_addr_t \<Rightarrow> bool" where
  "ip6_addr_is6bone ip6addr \<longleftrightarrow> (addr0 ip6addr AND 0xffff0000) = 0x3ffe0000"

definition ip6_addr_isip4vmappedlinklocal :: "ip6_addr_t \<Rightarrow> bool" where
  "ip6_addr_isip4vmappedlinklocal ip6addr \<longleftrightarrow>
     addr0 ip6addr = 0 \<and> addr1 ip6addr = 0 \<and> addr2 ip6addr = 0x0000ffff \<and>
     (addr3 ip6addr AND 0xffff0000) = 0xa9fe0000"

definition ip6_addr_isip4vmappedloopback :: "ip6_addr_t \<Rightarrow> bool" where
  "ip6_addr_isip4vmappedloopback ip6addr \<longleftrightarrow>
     addr0 ip6addr = 0 \<and> addr1 ip6addr = 0 \<and> addr2 ip6addr = 0x0000ffff \<and>
     (addr3 ip6addr AND 0xff000000) = 0x7f000000"

subsection \<open>Macros of ip6_addr.h used by netdb.c\<close>

text \<open>Modelled from the spec: \<^verbatim>\<open>ip6_addr_isloopback\<close> (header \<^verbatim>\<open>ip6_addr.h\<close>), the test
  for \<^verbatim>\<open>::1/128\<close>.\<close>

definition ip6_addr_isloopback :: "ip6_addr_t \<Rightarrow> bool" where
  "ip6_addr_isloopback ip6addr \<longleftrightarrow>
     addr0 ip6addr = 0 \<and> addr1 ip6addr = 0 \<and> addr2 ip6addr = 0 \<and>
     addr3 ip6addr = 0x00000001"

text \<open>Modelled from the spec: \<^verbatim>\<open>ip6_addr_isipv4mappedipv6\<close> (header \<^verbatim>\<open>ip6_addr.h\<close>), the
  test for \<^verbatim>\<open>::ffff:0:0/96\<close>.\<close>

definition ip6_addr_isipv4mappedipv6 :: "ip6_addr_t \<Rightarrow> bool" where
  "ip6_addr_isipv4mappedipv6 ip6addr \<longleftrightarrow>
     addr0 ip6addr = 0 \<and> addr1 ip6addr = 0 \<and> addr2 ip6addr = 0x0000ffff"

text \<open>Modelled from the spec: \<^verbatim>\<open>ip6_addr_islinklocal\<close> (header \<^verbatim>\<open>ip6_addr.h\<close>), the test
  for an IPv6 link-local address, \<^verbatim>\<open>fe80::/10\<close>.\<close>

definition ip6_addr_islinklocal :: "ip6_addr_t \<Rightarrow> bool" where
  "ip6_addr_islinklocal ip6addr \<longleftrightarrow> (addr0 ip6addr AND 0xffc00000) = 0xfe800000"

text \<open>Modelled from the spec: \<^verbatim>\<open>ip6_addr_issitelocal\<close> (header \<^verbatim>\<open>ip6_addr.h\<close>), the test
  for \<^verbatim>\<open>fec0::/10\<close>.\<close>

definition ip6_addr_issitelocal :: "ip6_addr_t \<Rightarrow> bool" where
  "ip6_addr_issitelocal ip6addr \<longleftrightarrow> (addr0 ip6addr AND 0xffc00000) = 0xfec00000"

text \<open>Modelled from the spec: \<^verbatim>\<open>ip6_addr_isuniquelocal\<close> (header \<^verbatim>\<open>ip6_addr.h\<close>), the
  test for \<^verbatim>\<open>fc00::/7\<close>.\<close>

definition ip6_addr_isuniquelocal :: "ip6_addr_t \<Rightarrow> bool" where
  "ip6_addr_isuniquelocal ip6addr \<longleftrightarrow> (addr0 ip6addr AND 0xfe000000) = 0xfc000000"

text \<open>Modelled from the spec: \<^verbatim>\<open>ip6_addr_ismulticast\<close> (header \<^verbatim>\<open>ip6_addr.h\<close>), the test
  for a multicast address, \<^verbatim>\<open>ff00::/8\<close>.\<close>

definition ip6_addr_ismulticast :: "ip6_addr_t \<Rightarrow> bool" where
  "ip6_addr_ismulticast ip6addr \<longleftrightarrow> (addr0 ip6addr AND 0xff000000) = 0xff000000"

text \<open>Modelled from the spec: \<^verbatim>\<open>ip6_addr_multicast_scope\<close> (header \<^verbatim>\<open>ip6_addr.h\<close>), the
  multicast-scope nibble of the address: the low four bits of its first 16-bit group.\<close>

definition ip6_addr_multicast_scope :: "ip6_addr_t \<Rightarrow> u8_t" where
  "ip6_addr_multicast_scope ip6addr = ucast (drop_bit 16 (addr0 ip6addr) AND 0xf)"

text \<open>Modelled from the spec: \<^verbatim>\<open>ip4_2_ipv4_mapped_ipv6\<close> (header \<^verbatim>\<open>ip6_addr.h\<close>), which
  maps the IPv4 address \<^verbatim>\<open>a.b.c.d\<close> to \<^verbatim>\<open>::ffff:a.b.c.d\<close> with no zone.\<close>

definition ip4_2_ipv4_mapped_ipv6 :: "u32_t \<Rightarrow> ip6_addr_t" where
  "ip4_2_ipv4_mapped_ipv6 ip4addr =
     \<lparr>addr0 = 0, addr1 = 0, addr2 = 0x0000ffff, addr3 = ip4addr, zone = 0\<rparr>"

text \<open>Modelled from the spec: the scope numbers \<^verbatim>\<open>IP6_MULTICAST_SCOPE_*\<close> (header
  \<^verbatim>\<open>ip6_addr.h\<close>): LinkLocal = 0x2, Site = 0x5, Global = 0xE.\<close>

definition IP6_MULTICAST_SCOPE_LINK_LOCAL :: u8_t where
  "IP6_MULTICAST_SCOPE_LINK_LOCAL = 0x2"

definition IP6_MULTICAST_SCOPE_SITE_LOCAL :: u8_t where
  "IP6_MULTICAST_SCOPE_SITE_LOCAL = 0x5"

definition IP6_MULTICAST_SCOPE_GLOBAL :: u8_t where
  "IP6_MULTICAST_SCOPE_GLOBAL = 0xe"

subsection \<open>Labels of the default precedence table\<close>

definition IP6_PRECEDENCE_LABEL_LOCALHOST :: u8_t where
  "IP6_PRECEDENCE_LABEL_LOCALHOST = 0x0"

definition IP6_PRECEDENCE_LABEL_GENERAL :: u8_t where
  "IP6_PRECEDENCE_LABEL_GENERAL = 0x1"

definition IP6_PRECEDENCE_LABEL_IPV4_COMPATIBLE_IPV6 :: u8_t where
  "IP6_PRECEDENCE_LABEL_IPV4_COMPATIBLE_IPV6 = 0x3"

definition IP6_PRECEDENCE_LABEL_6TO4 :: u8_t where
  "IP6_PRECEDENCE_LABEL_6TO4 = 0x2"

definition IP6_PRECEDENCE_LABEL_IPV4_MAPPED_IPV6 :: u8_t where
  "IP6_PRECEDENCE_LABEL_IPV4_MAPPED_IPV6 = 0x4"

definition IP6_PRECEDENCE_LABEL_TOREDO :: u8_t where
  "IP6_PRECEDENCE_LABEL_TOREDO = 0x5"

definition IP6_PRECEDENCE_LABEL_SITE_LOCAL :: u8_t where
  "IP6_PRECEDENCE_LABEL_SITE_LOCAL = 0xb"

definition IP6_PRECEDENCE_LABEL_6BONE :: u8_t where
  "IP6_PRECEDENCE_LABEL_6BONE = 0xc"

definition IP6_PRECEDENCE_LABEL_ULA :: u8_t where
  "IP6_PRECEDENCE_LABEL_ULA = 0xd"

lemmas label_defs =
  IP6_PRECEDENCE_LABEL_LOCALHOST_def IP6_PRECEDENCE_LABEL_GENERAL_def
  IP6_PRECEDENCE_LABEL_IPV4_COMPATIBLE_IPV6_def IP6_PRECEDENCE_LABEL_6TO4_def
  IP6_PRECEDENCE_LABEL_IPV4_MAPPED_IPV6_def IP6_PRECEDENCE_LABEL_TOREDO_def
  IP6_PRECEDENCE_LABEL_SITE_LOCAL_def IP6_PRECEDENCE_LABEL_6BONE_def
  IP6_PRECEDENCE_LABEL_ULA_def

lemmas scope_defs =
  IP6_MULTICAST_SCOPE_LINK_LOCAL_def IP6_MULTICAST_SCOPE_SITE_LOCAL_def
  IP6_MULTICAST_SCOPE_GLOBAL_def

section \<open>Classification: scope, label, precedence\<close>

text \<open>\<^verbatim>\<open>dns_addr_get_scope\<close>: the initial value \<^verbatim>\<open>IP6_MULTICAST_SCOPE_RESERVED\<close> of the
  local is overwritten on every branch, so the model is the \<^verbatim>\<open>if\<close> chain alone.\<close>

definition dns_addr_get_scope :: "ip6_addr_t \<Rightarrow> u8_t" where
  "dns_addr_get_scope a =
     (if ip6_addr_ismulticast a then ip6_addr_multicast_scope a
      else if ip6_addr_islinklocal a \<or> ip6_addr_isloopback a
              \<or> ip6_addr_isip4vmappedlinklocal a \<or> ip6_addr_isip4vmappedloopback a
        then IP6_MULTICAST_SCOPE_LINK_LOCAL
      else if ip6_addr_issitelocal a then IP6_MULTICAST_SCOPE_SITE_LOCAL
      else IP6_MULTICAST_SCOPE_GLOBAL)"

definition dns_get_precedence_label :: "ip6_addr_t \<Rightarrow> u8_t" where
  "dns_get_precedence_label a =
     (if ip6_addr_isloopback a then IP6_PRECEDENCE_LABEL_LOCALHOST
      else if ip6_addr_isipv4mappedipv6 a then IP6_PRECEDENCE_LABEL_IPV4_MAPPED_IPV6
      else if ip6_addr_isipv4compatibleipv6 a then IP6_PRECEDENCE_LABEL_IPV4_COMPATIBLE_IPV6
      else if ip6_addr_isteredo a then IP6_PRECEDENCE_LABEL_TOREDO
      else if ip6_addr_is6to4 a then IP6_PRECEDENCE_LABEL_6TO4
      else if ip6_addr_is6bone a then IP6_PRECEDENCE_LABEL_6BONE
      else if ip6_addr_issitelocal a then IP6_PRECEDENCE_LABEL_SITE_LOCAL
      else if ip6_addr_isuniquelocal a then IP6_PRECEDENCE_LABEL_ULA
      else IP6_PRECEDENCE_LABEL_GENERAL)"

text \<open>\<^verbatim>\<open>dns_precedence_for_label\<close>: the \<^verbatim>\<open>switch\<close>, case by case in the source's order.\<close>

definition dns_precedence_for_label :: "u8_t \<Rightarrow> u8_t" where
  "dns_precedence_for_label label =
     (if label = IP6_PRECEDENCE_LABEL_LOCALHOST then 50
      else if label = IP6_PRECEDENCE_LABEL_GENERAL then 40
      else if label = IP6_PRECEDENCE_LABEL_IPV4_MAPPED_IPV6 then 35
      else if label = IP6_PRECEDENCE_LABEL_6TO4 then 30
      else if label = IP6_PRECEDENCE_LABEL_TOREDO then 5
      else if label = IP6_PRECEDENCE_LABEL_ULA then 3
      else if label = IP6_PRECEDENCE_LABEL_IPV4_COMPATIBLE_IPV6
              \<or> label = IP6_PRECEDENCE_LABEL_SITE_LOCAL
              \<or> label = IP6_PRECEDENCE_LABEL_6BONE then 1
      else 0)"

section \<open>The comparator\<close>

text \<open>
  \<^verbatim>\<open>dns_compare_destination_address\<close> returns an \<^verbatim>\<open>s8_t\<close> that is one of 1, -1 and 0; the
  model returns it as an \<open>int\<close>. The three masks are \<^verbatim>\<open>s32_t\<close>; \<^verbatim>\<open>0x1 << n & flags\<close>
  parses as \<^verbatim>\<open>(0x1 << n) & flags\<close>.
\<close>

definition flag_set :: "u8_t \<Rightarrow> s32_t \<Rightarrow> bool" where
  "flag_set n flags \<longleftrightarrow> (push_bit (unat n) (0x1 :: s32_t) AND flags) \<noteq> 0"

definition dns_compare_destination_address ::
  "ip6_addr_t \<Rightarrow> ip6_addr_t \<Rightarrow> s32_t \<Rightarrow> s32_t \<Rightarrow> s32_t \<Rightarrow> int" where
  "dns_compare_destination_address cand_dest_addr_1 cand_dest_addr_2
       has_ipv6_source_scope_flags has_ipv4_source_scope_flags
       has_source_precedence_label_flags =
     (let cand_1_scope = dns_addr_get_scope cand_dest_addr_1;
          cand_1_matching_scope =
            (if ip6_addr_isipv4mappedipv6 cand_dest_addr_1
             then flag_set cand_1_scope has_ipv4_source_scope_flags
             else flag_set cand_1_scope has_ipv6_source_scope_flags);
          cand_2_scope = dns_addr_get_scope cand_dest_addr_2;
          cand_2_matching_scope =
            (if ip6_addr_isipv4mappedipv6 cand_dest_addr_2
             then flag_set cand_2_scope has_ipv4_source_scope_flags
             else flag_set cand_2_scope has_ipv6_source_scope_flags)
      in
      if cand_1_matching_scope \<and> \<not> cand_2_matching_scope then 1
      else if cand_2_matching_scope \<and> \<not> cand_1_matching_scope then - 1
      else
        let cand_1_label = dns_get_precedence_label cand_dest_addr_1;
            cand_1_matching_label = flag_set cand_1_label has_source_precedence_label_flags;
            cand_2_label = dns_get_precedence_label cand_dest_addr_2;
            cand_2_matching_label = flag_set cand_2_label has_source_precedence_label_flags
        in
        if cand_1_matching_label \<and> \<not> cand_2_matching_label then 1
        else if cand_2_matching_label \<and> \<not> cand_1_matching_label then - 1
        else
          let cand_1_precedence = dns_precedence_for_label cand_1_label;
              cand_2_precedence = dns_precedence_for_label cand_2_label
          in
          if cand_1_precedence > cand_2_precedence then 1
          else if cand_2_precedence > cand_1_precedence then - 1
          else if cand_1_scope < cand_2_scope then 1
          else if cand_2_scope < cand_1_scope then - 1
          else 0)"

section \<open>The precedence table\<close>

text \<open>
  Claim C7. For every label value, \<^verbatim>\<open>dns_precedence_for_label\<close> returns the entry of the
  RFC 6724 table: Localhost(0) 50, General(1) 40, 6to4(2) 30, V4Compat(3) 1, V4Mapped(4) 35,
  Teredo(5) 5, SiteLocal(11) 1, SixBone(12) 1, ULA(13) 3, and 0 for every other value.
\<close>

theorem precedence_table:
  "dns_precedence_for_label l =
     (if l = 0 then 50 else if l = 1 then 40 else if l = 2 then 30 else if l = 3 then 1
      else if l = 4 then 35 else if l = 5 then 5 else if l = 11 then 1
      else if l = 12 then 1 else if l = 13 then 3 else 0)"
  by (simp add: dns_precedence_for_label_def label_defs)

section \<open>Prefixes\<close>

text \<open>
  The spec names address classes by prefix, \<^verbatim>\<open>p/len\<close>: the addresses whose leading
  \<open>len\<close> bits are those of \<open>p\<close>. A prefix is written here like an address, as four
  32-bit groups; group \<open>i\<close> holds bits \<open>32 i\<close> to \<open>32 i + 31\<close> of the address, of which the
  leading \<open>len - 32 i\<close> (none when that is 0, all 32 when it is 32 or more) belong to the
  prefix.
\<close>

definition ip6 :: "u32_t \<Rightarrow> u32_t \<Rightarrow> u32_t \<Rightarrow> u32_t \<Rightarrow> ip6_addr_t" where
  "ip6 g0 g1 g2 g3 = \<lparr>addr0 = g0, addr1 = g1, addr2 = g2, addr3 = g3, zone = 0\<rparr>"

definition group_match :: "nat \<Rightarrow> u32_t \<Rightarrow> u32_t \<Rightarrow> bool" where
  "group_match n p w \<longleftrightarrow> drop_bit (32 - n) w = drop_bit (32 - n) p"

definition in_prefix :: "ip6_addr_t \<Rightarrow> nat \<Rightarrow> ip6_addr_t \<Rightarrow> bool" where
  "in_prefix p len a \<longleftrightarrow>
     group_match len (addr0 p) (addr0 a) \<and> group_match (len - 32) (addr1 p) (addr1 a) \<and>
     group_match (len - 64) (addr2 p) (addr2 a) \<and> group_match (len - 96) (addr3 p) (addr3 a)"

text \<open>The label table as the spec orders it, searched for the first prefix that holds
  the address; \<open>spec_label\<close> follows the spec's words, not the source.\<close>

fun first_match :: "(ip6_addr_t \<times> nat \<times> u8_t) list \<Rightarrow> u8_t \<Rightarrow> ip6_addr_t \<Rightarrow> u8_t" where
  "first_match [] dflt a = dflt"
| "first_match ((p, len, l) # rest) dflt a =
     (if in_prefix p len a then l else first_match rest dflt a)"

definition label_table :: "(ip6_addr_t \<times> nat \<times> u8_t) list" where
  "label_table =
     [(ip6 0 0 0 1, 128, 0),
      (ip6 0 0 0xffff 0, 96, 4),
      (ip6 0 0 0 0, 96, 3),
      (ip6 0x20010000 0 0 0, 32, 5),
      (ip6 0x20020000 0 0 0, 16, 2),
      (ip6 0x3ffe0000 0 0 0, 16, 12),
      (ip6 0xfec00000 0 0 0, 10, 11),
      (ip6 0xfc000000 0 0 0, 7, 13)]"

definition spec_label :: "ip6_addr_t \<Rightarrow> u8_t" where
  "spec_label a = first_match label_table 1 a"

text \<open>The scope rules in the spec's words: multicast \<^verbatim>\<open>ff00::/8\<close> first, then the four
  link-local classes \<^verbatim>\<open>fe80::/10\<close>, \<^verbatim>\<open>::1/128\<close>, \<^verbatim>\<open>::ffff:169.254.0.0/112\<close> and
  \<^verbatim>\<open>::ffff:127.0.0.0/104\<close>, then site-local \<^verbatim>\<open>fec0::/10\<close>, then global.\<close>

definition spec_scope :: "ip6_addr_t \<Rightarrow> u8_t" where
  "spec_scope a =
     (if in_prefix (ip6 0xff000000 0 0 0) 8 a then ip6_addr_multicast_scope a
      else if in_prefix (ip6 0xfe800000 0 0 0) 10 a \<or> in_prefix (ip6 0 0 0 1) 128 a
              \<or> in_prefix (ip6 0 0 0xffff 0xa9fe0000) 112 a
              \<or> in_prefix (ip6 0 0 0xffff 0x7f000000) 104 a then 0x2
      else if in_prefix (ip6 0xfec00000 0 0 0) 10 a then 0x5
      else 0xe)"

subsection \<open>A masked comparison is a prefix test\<close>

lemma and_not_mask_push_drop:
  "(w::'a::len word) AND NOT (mask k) = push_bit k (drop_bit k w)"
  by (rule bit_word_eqI) (auto simp: bit_simps)

lemma drop_push_drop:
  "drop_bit k (push_bit k (drop_bit k (w::'a::len word))) = drop_bit k w"
  by (rule bit_word_eqI) (auto simp: bit_simps dest: bit_imp_le_length)

lemma masked_eq_iff:
  fixes w m v :: "'a::len word"
  assumes "m = NOT (mask k)" and "v = push_bit k (drop_bit k v)"
  shows "(w AND m = v) \<longleftrightarrow> drop_bit k w = drop_bit k v"
proof
  assume "w AND m = v"
  then have "push_bit k (drop_bit k w) = push_bit k (drop_bit k v)"
    using assms by (simp add: and_not_mask_push_drop)
  then have "drop_bit k (push_bit k (drop_bit k w)) = drop_bit k (push_bit k (drop_bit k v))"
    by simp
  then show "drop_bit k w = drop_bit k v" by (simp only: drop_push_drop)
next
  assume "drop_bit k w = drop_bit k v"
  then have "w AND NOT (mask k) = push_bit k (drop_bit k v)"
    by (simp add: and_not_mask_push_drop)
  then show "w AND m = v" using assms by simp
qed

lemma group_match_none [simp]: "group_match 0 p w"
  by (simp add: group_match_def)

lemma group_match_all [simp]: "32 \<le> n \<Longrightarrow> group_match n p w \<longleftrightarrow> w = p"
  by (simp add: group_match_def)

lemma is6to4_prefix: "ip6_addr_is6to4 a \<longleftrightarrow> in_prefix (ip6 0x20020000 0 0 0) 16 a"
  using masked_eq_iff[of "0xffff0000 :: u32_t" 16 "0x20020000" "addr0 a"]
  by (simp add: ip6_addr_is6to4_def in_prefix_def ip6_def group_match_def mask_eq_exp_minus_1)

lemma is6bone_prefix: "ip6_addr_is6bone a \<longleftrightarrow> in_prefix (ip6 0x3ffe0000 0 0 0) 16 a"
  using masked_eq_iff[of "0xffff0000 :: u32_t" 16 "0x3ffe0000" "addr0 a"]
  by (simp add: ip6_addr_is6bone_def in_prefix_def ip6_def group_match_def mask_eq_exp_minus_1)

lemma isteredo_prefix: "ip6_addr_isteredo a \<longleftrightarrow> in_prefix (ip6 0x20010000 0 0 0) 32 a"
proof -
  have "(0xffffffff :: u32_t) = - 1" by simp
  then have "addr0 a AND 0xffffffff = addr0 a" by (simp only: and.right_neutral)
  then show ?thesis by (simp add: ip6_addr_isteredo_def in_prefix_def ip6_def)
qed

lemma issitelocal_prefix: "ip6_addr_issitelocal a \<longleftrightarrow> in_prefix (ip6 0xfec00000 0 0 0) 10 a"
  using masked_eq_iff[of "0xffc00000 :: u32_t" 22 "0xfec00000" "addr0 a"]
  by (simp add: ip6_addr_issitelocal_def in_prefix_def ip6_def group_match_def mask_eq_exp_minus_1)

lemma islinklocal_prefix: "ip6_addr_islinklocal a \<longleftrightarrow> in_prefix (ip6 0xfe800000 0 0 0) 10 a"
  using masked_eq_iff[of "0xffc00000 :: u32_t" 22 "0xfe800000" "addr0 a"]
  by (simp add: ip6_addr_islinklocal_def in_prefix_def ip6_def group_match_def mask_eq_exp_minus_1)

lemma isuniquelocal_prefix: "ip6_addr_isuniquelocal a \<longleftrightarrow> in_prefix (ip6 0xfc000000 0 0 0) 7 a"
  using masked_eq_iff[of "0xfe000000 :: u32_t" 25 "0xfc000000" "addr0 a"]
  by (simp add: ip6_addr_isuniquelocal_def in_prefix_def ip6_def group_match_def mask_eq_exp_minus_1)

lemma ismulticast_prefix: "ip6_addr_ismulticast a \<longleftrightarrow> in_prefix (ip6 0xff000000 0 0 0) 8 a"
  using masked_eq_iff[of "0xff000000 :: u32_t" 24 "0xff000000" "addr0 a"]
  by (simp add: ip6_addr_ismulticast_def in_prefix_def ip6_def group_match_def mask_eq_exp_minus_1)

lemma isloopback_prefix: "ip6_addr_isloopback a \<longleftrightarrow> in_prefix (ip6 0 0 0 1) 128 a"
  by (simp add: ip6_addr_isloopback_def in_prefix_def ip6_def)

lemma isipv4mapped_prefix: "ip6_addr_isipv4mappedipv6 a \<longleftrightarrow> in_prefix (ip6 0 0 0xffff 0) 96 a"
  by (simp add: ip6_addr_isipv4mappedipv6_def in_prefix_def ip6_def)

lemma isipv4compatible_prefix:
  "ip6_addr_isipv4compatibleipv6 a \<longleftrightarrow> in_prefix (ip6 0 0 0 0) 96 a"
  by (simp add: ip6_addr_isipv4compatibleipv6_def in_prefix_def ip6_def)

lemma isip4vmappedlinklocal_prefix:
  "ip6_addr_isip4vmappedlinklocal a \<longleftrightarrow> in_prefix (ip6 0 0 0xffff 0xa9fe0000) 112 a"
  using masked_eq_iff[of "0xffff0000 :: u32_t" 16 "0xa9fe0000" "addr3 a"]
  by (simp add: ip6_addr_isip4vmappedlinklocal_def in_prefix_def ip6_def group_match_def
      mask_eq_exp_minus_1)

lemma isip4vmappedloopback_prefix:
  "ip6_addr_isip4vmappedloopback a \<longleftrightarrow> in_prefix (ip6 0 0 0xffff 0x7f000000) 104 a"
  using masked_eq_iff[of "0xff000000 :: u32_t" 24 "0x7f000000" "addr3 a"]
  by (simp add: ip6_addr_isip4vmappedloopback_def in_prefix_def ip6_def group_match_def
      mask_eq_exp_minus_1)

lemmas prefix_iffs = isloopback_prefix isipv4mapped_prefix isipv4compatible_prefix
  isteredo_prefix is6to4_prefix is6bone_prefix issitelocal_prefix isuniquelocal_prefix
  islinklocal_prefix ismulticast_prefix isip4vmappedlinklocal_prefix
  isip4vmappedloopback_prefix

lemma multicast_scope_less_16: "ip6_addr_multicast_scope a < 16"
proof -
  have "ip6_addr_multicast_scope a = ucast (drop_bit 16 (addr0 a)) AND 0xf"
    by (simp add: ip6_addr_multicast_scope_def unsigned_and_eq)
  moreover have "(ucast (drop_bit 16 (addr0 a)) :: u8_t) AND 0xf \<le> 0xf"
    by (rule word_and_le1)
  ultimately have "unat (ip6_addr_multicast_scope a) \<le> 15"
    by (simp add: word_le_nat_alt)
  then show ?thesis by (simp add: word_less_nat_alt)
qed

lemma scope_less_16: "dns_addr_get_scope a < 16"
  by (simp add: dns_addr_get_scope_def multicast_scope_less_16 scope_defs)

section \<open>The label and the scope of an address\<close>

text \<open>
  Claim C5. For every IPv6 address (IPv4 mapped in), \<^verbatim>\<open>dns_get_precedence_label\<close> tests the
  prefixes in the order \<^verbatim>\<open>::1/128\<close> (Localhost 0), \<^verbatim>\<open>::ffff:0:0/96\<close> (V4Mapped 4),
  \<^verbatim>\<open>::/96\<close> (V4Compat 3), \<^verbatim>\<open>2001::/32\<close> (Teredo 5), \<^verbatim>\<open>2002::/16\<close> (6to4 2),
  \<^verbatim>\<open>3ffe::/16\<close> (SixBone 12), \<^verbatim>\<open>fec0::/10\<close> (SiteLocal 11), \<^verbatim>\<open>fc00::/7\<close> (ULA 13) and
  returns the label of the first that matches, General (1) when none does; the all-zero
  address \<^verbatim>\<open>::\<close> gets V4Compat, whatever its zone.
\<close>

theorem label_first_match:
  "dns_get_precedence_label a = spec_label a \<and>
   dns_get_precedence_label \<lparr>addr0 = 0, addr1 = 0, addr2 = 0, addr3 = 0, zone = z\<rparr> = 3"
  by (simp add: dns_get_precedence_label_def spec_label_def label_table_def prefix_iffs
      label_defs)
    (simp add: in_prefix_def ip6_def)

text \<open>
  Claim C6. For every IPv6 address (IPv4 mapped in), \<^verbatim>\<open>dns_addr_get_scope\<close> returns the
  multicast-scope nibble of a multicast address; otherwise LinkLocal (0x2) for an IPv6
  link-local address, the IPv6 loopback, an IPv4-mapped 169.254/16 or an IPv4-mapped 127/8
  address; otherwise Site (0x5) for an address in \<^verbatim>\<open>fec0::/10\<close>; otherwise Global (0xE).
  The function is total and its value is a scope number below 16.
\<close>

theorem scope_by_prefix:
  "dns_addr_get_scope a = spec_scope a \<and> unat (dns_addr_get_scope a) < 16"
  using scope_less_16 [of a]
  by (simp add: dns_addr_get_scope_def spec_scope_def prefix_iffs scope_defs
      word_less_nat_alt)

section \<open>The comparator, rule by rule\<close>

text \<open>
  The rules of the comparator in the spec's words. A destination matches in scope when
  the bit of its scope is set in the mask of its family (the IPv4 mask for an address in
  \<^verbatim>\<open>::ffff:0:0/96\<close>, the IPv6 mask otherwise), and in label when the bit of its label is
  set in the label mask. Each rule gives 1 when it prefers the first address, -1 when it
  prefers the second and 0 when it does not discriminate; the verdict of a list of rules
  is that of the first rule that discriminates.
\<close>

definition matching_scope :: "ip6_addr_t \<Rightarrow> s32_t \<Rightarrow> s32_t \<Rightarrow> bool" where
  "matching_scope a ipv6_scopes ipv4_scopes \<longleftrightarrow>
     bit (if in_prefix (ip6 0 0 0xffff 0) 96 a then ipv4_scopes else ipv6_scopes)
       (unat (dns_addr_get_scope a))"

definition matching_label :: "ip6_addr_t \<Rightarrow> s32_t \<Rightarrow> bool" where
  "matching_label a labels \<longleftrightarrow> bit labels (unat (dns_get_precedence_label a))"

definition prefer_true :: "bool \<Rightarrow> bool \<Rightarrow> int" where
  "prefer_true x y = (if x \<and> \<not> y then 1 else if y \<and> \<not> x then - 1 else 0)"

definition prefer_greater :: "nat \<Rightarrow> nat \<Rightarrow> int" where
  "prefer_greater x y = (if x > y then 1 else if x < y then - 1 else 0)"

definition rule_2 :: "ip6_addr_t \<Rightarrow> ip6_addr_t \<Rightarrow> s32_t \<Rightarrow> s32_t \<Rightarrow> int" where
  "rule_2 A B ipv6_scopes ipv4_scopes =
     prefer_true (matching_scope A ipv6_scopes ipv4_scopes) (matching_scope B ipv6_scopes ipv4_scopes)"

definition rule_5 :: "ip6_addr_t \<Rightarrow> ip6_addr_t \<Rightarrow> s32_t \<Rightarrow> int" where
  "rule_5 A B labels = prefer_true (matching_label A labels) (matching_label B labels)"

definition rule_6 :: "ip6_addr_t \<Rightarrow> ip6_addr_t \<Rightarrow> int" where
  "rule_6 A B =
     prefer_greater (unat (dns_precedence_for_label (dns_get_precedence_label A)))
       (unat (dns_precedence_for_label (dns_get_precedence_label B)))"

definition rule_8 :: "ip6_addr_t \<Rightarrow> ip6_addr_t \<Rightarrow> int" where
  "rule_8 A B = prefer_greater (unat (dns_addr_get_scope B)) (unat (dns_addr_get_scope A))"

fun first_verdict :: "int list \<Rightarrow> int" where
  "first_verdict [] = 0"
| "first_verdict (v # vs) = (if v \<noteq> 0 then v else first_verdict vs)"


lemma flag_set_bit: "flag_set n flags \<longleftrightarrow> bit flags (unat n)"
  unfolding flag_set_def push_bit_of_1
  using and_exp_eq_0_iff_not_bit[of flags "unat n"] by (simp add: and.commute)

lemma verdict_chain:
  fixes p1 p2 s1 s2 :: u8_t
  shows "(if m1 \<and> \<not> m2 then 1 else if m2 \<and> \<not> m1 then - 1
      else if l1 \<and> \<not> l2 then 1 else if l2 \<and> \<not> l1 then - 1
      else if p1 > p2 then 1 else if p2 > p1 then - 1
      else if s1 < s2 then 1 else if s2 < s1 then - 1 else 0)
    = first_verdict [prefer_true m1 m2, prefer_true l1 l2,
        prefer_greater (unat p1) (unat p2), prefer_greater (unat s2) (unat s1)]"
  by (simp add: prefer_true_def prefer_greater_def word_less_nat_alt)

lemma matching_scope_flag:
  "(if ip6_addr_isipv4mappedipv6 a then flag_set (dns_addr_get_scope a) ipv4_scopes
    else flag_set (dns_addr_get_scope a) ipv6_scopes) = matching_scope a ipv6_scopes ipv4_scopes"
  by (simp add: matching_scope_def flag_set_bit isipv4mapped_prefix)

lemma matching_label_flag:
  "flag_set (dns_get_precedence_label a) labels = matching_label a labels"
  by (simp add: matching_label_def flag_set_bit)

lemma compare_by_rules:
  "dns_compare_destination_address A B ipv6_scopes ipv4_scopes labels =
     first_verdict [rule_2 A B ipv6_scopes ipv4_scopes, rule_5 A B labels, rule_6 A B, rule_8 A B]"
  unfolding dns_compare_destination_address_def Let_def verdict_chain
    matching_scope_flag matching_label_flag rule_2_def rule_5_def rule_6_def rule_8_def
  by (rule refl)

definition rank :: "ip6_addr_t \<Rightarrow> s32_t \<Rightarrow> s32_t \<Rightarrow> s32_t \<Rightarrow> nat" where
  "rank a ipv6_scopes ipv4_scopes labels =
     ((of_bool (matching_scope a ipv6_scopes ipv4_scopes) * 2 + of_bool (matching_label a labels)) * 256
        + unat (dns_precedence_for_label (dns_get_precedence_label a))) * 256
      + (255 - unat (dns_addr_get_scope a))"

lemma u8_bound: "unat (w :: u8_t) < 256"
  using unsigned_less[of w] by simp

lemma lex_as_rank:
  fixes p1 p2 s1 s2 :: nat
  assumes "p1 < 256" "p2 < 256" "s1 < 256" "s2 < 256"
  shows "first_verdict [prefer_true x1 x2, prefer_true y1 y2, prefer_greater p1 p2, prefer_greater s2 s1]
     = prefer_greater (((of_bool x1 * 2 + of_bool y1) * 256 + p1) * 256 + (255 - s1))
          (((of_bool x2 * 2 + of_bool y2) * 256 + p2) * 256 + (255 - s2))"
  using assms
  by (cases x1; cases x2; cases y1; cases y2; simp add: prefer_true_def prefer_greater_def; arith)

lemma compare_by_rank:
  "dns_compare_destination_address A B ipv6_scopes ipv4_scopes labels =
     prefer_greater (rank A ipv6_scopes ipv4_scopes labels) (rank B ipv6_scopes ipv4_scopes labels)"
  unfolding compare_by_rules rule_2_def rule_5_def rule_6_def rule_8_def rank_def
  by (rule lex_as_rank) (rule u8_bound)+

lemma prefer_greater_neg: "prefer_greater x y = - prefer_greater y x"
  by (simp add: prefer_greater_def)

lemma prefer_greater_ge0: "0 \<le> prefer_greater x y \<longleftrightarrow> y \<le> x"
  by (simp add: prefer_greater_def)

lemma prefer_greater_0: "prefer_greater x y = 0 \<longleftrightarrow> x = y"
  by (simp add: prefer_greater_def)

text \<open>
  Claim C3. The comparator is a total preorder: for all destinations \<open>a\<close>, \<open>b\<close>, \<open>c\<close> and
  every source summary, \<open>cmp(a, b) = - cmp(b, a)\<close>, and \<open>cmp(a, b) \<ge> 0\<close> with
  \<open>cmp(b, c) \<ge> 0\<close> gives \<open>cmp(a, c) \<ge> 0\<close>.
\<close>

theorem compare_total_preorder:
  "dns_compare_destination_address a b v6 v4 labels
     = - dns_compare_destination_address b a v6 v4 labels \<and>
   (0 \<le> dns_compare_destination_address a b v6 v4 labels \<and>
    0 \<le> dns_compare_destination_address b c v6 v4 labels \<longrightarrow>
    0 \<le> dns_compare_destination_address a c v6 v4 labels)"
proof
  show "dns_compare_destination_address a b v6 v4 labels
     = - dns_compare_destination_address b a v6 v4 labels"
    unfolding compare_by_rank by (rule prefer_greater_neg)
  show "0 \<le> dns_compare_destination_address a b v6 v4 labels \<and>
    0 \<le> dns_compare_destination_address b c v6 v4 labels \<longrightarrow>
    0 \<le> dns_compare_destination_address a c v6 v4 labels"
    unfolding compare_by_rank prefer_greater_ge0 by simp
qed

lemma label_of_mapped:
  "ip6_addr_isipv4mappedipv6 a \<Longrightarrow> dns_precedence_for_label (dns_get_precedence_label a) = 35"
  by (simp add: dns_get_precedence_label_def ip6_addr_isloopback_def ip6_addr_isipv4mappedipv6_def
      dns_precedence_for_label_def label_defs)

lemma label_of_unmapped:
  "\<not> ip6_addr_isipv4mappedipv6 a \<Longrightarrow> dns_precedence_for_label (dns_get_precedence_label a) \<noteq> 35"
  by (simp add: dns_get_precedence_label_def dns_precedence_for_label_def label_defs)

lemma first_verdict_nonzero: "v \<in> set vs \<Longrightarrow> v \<noteq> 0 \<Longrightarrow> first_verdict vs \<noteq> 0"
  by (induction vs) auto

text \<open>
  Claim C10. When exactly one of two destinations is an IPv4-mapped address, the comparator
  never returns 0, whatever the source summary: the mapped address has precedence 35 and
  no other address has, so rule 6 discriminates whenever rules 2 and 5 do not.
\<close>

theorem mixed_pair_strict:
  assumes "ip6_addr_isipv4mappedipv6 a \<noteq> ip6_addr_isipv4mappedipv6 b"
  shows "dns_compare_destination_address a b v6 v4 labels \<noteq> 0"
proof -
  have "dns_precedence_for_label (dns_get_precedence_label a)
      \<noteq> dns_precedence_for_label (dns_get_precedence_label b)"
    using assms label_of_mapped[of a] label_of_mapped[of b] label_of_unmapped[of a] label_of_unmapped[of b]
    by (cases "ip6_addr_isipv4mappedipv6 a") auto
  then have "rule_6 a b \<noteq> 0"
    by (simp add: rule_6_def prefer_greater_0 word_unat_eq_iff)
  then show ?thesis
    unfolding compare_by_rules by (rule first_verdict_nonzero[rotated]) simp
qed


text \<open>
  Claim C1. For every pair of destinations \<open>A\<close>, \<open>B\<close> and every source summary,
  \<^verbatim>\<open>dns_compare_destination_address\<close> returns the verdict of the first rule that
  discriminates, in the order rule 2 (matching scope), rule 5 (matching label), rule 6
  (higher precedence), rule 8 (smaller scope), and 0 when none does.
\<close>

theorem compare_first_discriminating_rule:
  "dns_compare_destination_address A B ipv6_scopes ipv4_scopes labels =
     first_verdict [rule_2 A B ipv6_scopes ipv4_scopes, rule_5 A B labels, rule_6 A B, rule_8 A B]"
  by (rule compare_by_rules)

section \<open>Sorting the destination list\<close>

text \<open>The fragment the source repeats before every classification: an IPv4 address
  (\<^verbatim>\<open>type == IPADDR_TYPE_V4\<close>) is mapped into a local IPv6 address, any other address is read
  in place as IPv6. The stored address is not changed.\<close>

definition ip_addr_as_ip6 :: "ip_addr_t \<Rightarrow> ip6_addr_t" where
  "ip_addr_as_ip6 x =
     (case x of IPADDR_TYPE_V4 a4 \<Rightarrow> ip4_2_ipv4_mapped_ipv6 a4 | IPADDR_TYPE_V6 a6 \<Rightarrow> a6)"

text \<open>The three masks that summarise the candidate source addresses, and the loop that
  fills them: one step for each entry of \<^verbatim>\<open>cand_source_addr_list\<close>, in order.\<close>

record source_summary =
  has_ipv6_source_scope_flags :: s32_t
  has_ipv4_source_scope_flags :: s32_t
  has_source_precedence_label_flags :: s32_t

definition summarise_step :: "source_summary \<Rightarrow> ip_addr_t \<Rightarrow> source_summary" where
  "summarise_step s cand =
     (let source_addr = ip_addr_as_ip6 cand;
          s1 = s\<lparr>has_source_precedence_label_flags :=
                 has_source_precedence_label_flags s
                   OR push_bit (unat (dns_get_precedence_label source_addr)) 0x1\<rparr>
      in if ip6_addr_isipv4mappedipv6 source_addr
         then s1\<lparr>has_ipv4_source_scope_flags :=
                 has_ipv4_source_scope_flags s1
                   OR push_bit (unat (dns_addr_get_scope source_addr)) 0x1\<rparr>
         else s1\<lparr>has_ipv6_source_scope_flags :=
                 has_ipv6_source_scope_flags s1
                   OR push_bit (unat (dns_addr_get_scope source_addr)) 0x1\<rparr>)"

definition summarise_sources :: "ip_addr_t list \<Rightarrow> source_summary" where
  "summarise_sources cand_source_addr_list =
     foldl summarise_step
       \<lparr>has_ipv6_source_scope_flags = 0x0, has_ipv4_source_scope_flags = 0x0,
        has_source_precedence_label_flags = 0x0\<rparr>
       cand_source_addr_list"

text \<open>The comparison the sort makes between two entries of the destination list.\<close>

definition compare_dest :: "source_summary \<Rightarrow> ip_addr_t \<Rightarrow> ip_addr_t \<Rightarrow> int" where
  "compare_dest S x y =
     dns_compare_destination_address (ip_addr_as_ip6 x) (ip_addr_as_ip6 y)
       (has_ipv6_source_scope_flags S) (has_ipv4_source_scope_flags S)
       (has_source_precedence_label_flags S)"

text \<open>
  The two nested loops. \<open>sort_pass\<close> is the inner loop over \<^verbatim>\<open>dest_index\<close>, with
  \<open>bound\<close> standing for \<^verbatim>\<open>dest_addr_list_length - dest_sort_step - 1\<close>; it swaps two
  neighbours when the comparator is negative. \<open>sort_steps\<close> is the outer loop over
  \<^verbatim>\<open>dest_sort_step\<close>, with \<open>n\<close> the \<^verbatim>\<open>dest_addr_list_length\<close>. Lengths and counters are
  \<^verbatim>\<open>u8_t\<close> in the source and the bounds are computed in \<^verbatim>\<open>int\<close>; a list of at most 255
  entries keeps every counter below 255, where they agree with the naturals used here.
\<close>

function sort_pass :: "source_summary \<Rightarrow> nat \<Rightarrow> nat \<Rightarrow> ip_addr_t list \<Rightarrow> ip_addr_t list" where
  "sort_pass S bound dest_index dest_addr_list =
     (if dest_index < bound then
        sort_pass S bound (dest_index + 1)
          (if compare_dest S (dest_addr_list ! dest_index) (dest_addr_list ! (dest_index + 1)) < 0
           then dest_addr_list[dest_index := dest_addr_list ! (dest_index + 1),
                               dest_index + 1 := dest_addr_list ! dest_index]
           else dest_addr_list)
      else dest_addr_list)"
  by pat_completeness auto
termination
  by (relation "measure (\<lambda>(S, bound, dest_index, dest_addr_list). bound - dest_index)") auto

function sort_steps :: "source_summary \<Rightarrow> nat \<Rightarrow> nat \<Rightarrow> ip_addr_t list \<Rightarrow> ip_addr_t list" where
  "sort_steps S n dest_sort_step dest_addr_list =
     (if dest_sort_step < n - 1 then
        sort_steps S n (dest_sort_step + 1) (sort_pass S (n - dest_sort_step - 1) 0 dest_addr_list)
      else dest_addr_list)"
  by pat_completeness auto
termination
  by (relation "measure (\<lambda>(S, n, dest_sort_step, dest_addr_list). n - 1 - dest_sort_step)") auto

text \<open>\<^verbatim>\<open>lwip_sortdestinationaddresses\<close>: the array and its length are the list; the result is
  the array after the call.\<close>

definition lwip_sortdestinationaddresses :: "ip_addr_t list \<Rightarrow> ip_addr_t list \<Rightarrow> ip_addr_t list" where
  "lwip_sortdestinationaddresses dest_addr_list cand_source_addr_list =
     (if length dest_addr_list \<le> 1 then dest_addr_list
      else sort_steps (summarise_sources cand_source_addr_list) (length dest_addr_list) 0
             dest_addr_list)"


text \<open>
  What a stable sort owes its input: \<open>ys\<close> is \<open>xs\<close> rearranged by a permutation \<open>p\<close> of the
  positions (the entry at position \<open>i\<close> of \<open>xs\<close> stands at position \<open>p i\<close> of \<open>ys\<close>) that
  keeps the order of every two entries that compare equal.
\<close>

definition stable_perm :: "source_summary \<Rightarrow> ip_addr_t list \<Rightarrow> ip_addr_t list \<Rightarrow> bool" where
  "stable_perm S xs ys \<longleftrightarrow>
     length ys = length xs \<and>
     (\<exists>p. bij_betw p {..<length xs} {..<length xs} \<and>
          (\<forall>i<length xs. ys ! p i = xs ! i) \<and>
          (\<forall>i j. i < j \<and> j < length xs \<and> compare_dest S (xs ! i) (xs ! j) = 0 \<longrightarrow> p i < p j))"

declare sort_pass.simps [simp del] sort_steps.simps [simp del]

definition swap_adjacent :: "nat \<Rightarrow> nat \<Rightarrow> nat" where
  "swap_adjacent k m = (if m = k then k + 1 else if m = k + 1 then k else m)"

lemma swap_adjacent_bij: "k + 1 < n \<Longrightarrow> bij_betw (swap_adjacent k) {..<n} {..<n}"
  by (rule bij_betw_byWitness[where f' = "swap_adjacent k"]) (auto simp: swap_adjacent_def)

lemma nth_swapped:
  "k + 1 < length ys \<Longrightarrow> m < length ys \<Longrightarrow>
   ys[k := ys ! (k + 1), k + 1 := ys ! k] ! swap_adjacent k m = ys ! m"
  by (auto simp: swap_adjacent_def nth_list_update)

lemma swap_adjacent_mono:
  "m1 < m2 \<Longrightarrow> \<not> (m1 = k \<and> m2 = k + 1) \<Longrightarrow> swap_adjacent k m1 < swap_adjacent k m2"
  by (auto simp: swap_adjacent_def)

lemma stable_perm_refl: "stable_perm S xs xs"
  unfolding stable_perm_def
  by (intro conjI exI[where x = id]) auto

lemma stable_perm_swap:
  assumes st: "stable_perm S xs ys" and k: "k + 1 < length ys"
    and ne: "compare_dest S (ys ! k) (ys ! (k + 1)) \<noteq> 0"
  shows "stable_perm S xs (ys[k := ys ! (k + 1), k + 1 := ys ! k])"
proof -
  let ?n = "length xs"
  from st obtain p where len: "length ys = ?n"
    and bij: "bij_betw p {..<?n} {..<?n}"
    and nth: "\<And>i. i < ?n \<Longrightarrow> ys ! p i = xs ! i"
    and ord: "\<And>i j. i < j \<Longrightarrow> j < ?n \<Longrightarrow> compare_dest S (xs ! i) (xs ! j) = 0 \<Longrightarrow> p i < p j"
    unfolding stable_perm_def by blast
  let ?q = "swap_adjacent k \<circ> p"
  let ?zs = "ys[k := ys ! (k + 1), k + 1 := ys ! k]"
  have range: "\<And>i. i < ?n \<Longrightarrow> p i < ?n"
    using bij by (auto simp: bij_betw_def)
  have "bij_betw ?q {..<?n} {..<?n}"
    using bij swap_adjacent_bij[of k ?n] k len by (auto intro: bij_betw_trans)
  moreover have "\<forall>i<?n. ?zs ! ?q i = xs ! i"
    using nth_swapped[OF k] range nth len by simp
  moreover have "\<forall>i j. i < j \<and> j < ?n \<and> compare_dest S (xs ! i) (xs ! j) = 0 \<longrightarrow> ?q i < ?q j"
  proof (intro allI impI, elim conjE)
    fix i j assume ij: "i < j" "j < ?n" and eq: "compare_dest S (xs ! i) (xs ! j) = 0"
    have lt: "p i < p j" using ord ij eq by blast
    have "\<not> (p i = k \<and> p j = k + 1)"
    proof
      assume "p i = k \<and> p j = k + 1"
      then have "ys ! k = xs ! i" "ys ! (k + 1) = xs ! j"
        using nth[of i] nth[of j] ij by auto
      with eq ne show False by simp
    qed
    with lt show "?q i < ?q j" by (simp add: swap_adjacent_mono)
  qed
  ultimately show ?thesis
    unfolding stable_perm_def using len by auto
qed

lemma sort_pass_stable:
  "stable_perm S xs ys \<Longrightarrow> bound < length ys \<Longrightarrow> stable_perm S xs (sort_pass S bound i ys)"
proof (induction S bound i ys rule: sort_pass.induct)
  case (1 S bound dest_index ys)
  show ?case
  proof (cases "dest_index < bound")
    case False
    then show ?thesis using "1.prems" by (subst sort_pass.simps) simp
  next
    case True
    let ?zs = "if compare_dest S (ys ! dest_index) (ys ! (dest_index + 1)) < 0
           then ys[dest_index := ys ! (dest_index + 1), dest_index + 1 := ys ! dest_index]
           else ys"
    have k: "dest_index + 1 < length ys" using True "1.prems" by simp
    have "stable_perm S xs ?zs"
      using stable_perm_swap[OF "1.prems"(1) k] "1.prems"(1) by auto
    moreover have "bound < length ?zs" using "1.prems" by simp
    ultimately have "stable_perm S xs (sort_pass S bound (dest_index + 1) ?zs)"
      using "1.IH"[OF True] by blast
    then show ?thesis using True by (subst sort_pass.simps) simp
  qed
qed

lemma stable_perm_length: "stable_perm S xs ys \<Longrightarrow> length ys = length xs"
  by (simp add: stable_perm_def)

lemma sort_steps_stable:
  "stable_perm S xs ys \<Longrightarrow> n \<le> length ys \<Longrightarrow> stable_perm S xs (sort_steps S n step ys)"
proof (induction S n step ys rule: sort_steps.induct)
  case (1 S n step ys)
  show ?case
  proof (cases "step < n - 1")
    case False
    then show ?thesis using "1.prems" by (subst sort_steps.simps) simp
  next
    case True
    let ?zs = "sort_pass S (n - step - 1) 0 ys"
    have "n - step - 1 < length ys" using True "1.prems" by simp
    then have st: "stable_perm S xs ?zs" using "1.prems"(1) by (rule sort_pass_stable[rotated])
    then have "length ?zs = length ys"
      using "1.prems"(1) by (simp only: stable_perm_length)
    then have "n \<le> length ?zs" using "1.prems"(2) by simp
    then have "stable_perm S xs (sort_steps S n (step + 1) ?zs)"
      using "1.IH"[OF True st] by blast
    then show ?thesis using True by (subst sort_steps.simps) simp
  qed
qed

lemma sort_pass_mset:
  "bound < length ys \<Longrightarrow> mset (sort_pass S bound i ys) = mset ys"
proof (induction S bound i ys rule: sort_pass.induct)
  case (1 S bound dest_index ys)
  show ?case
  proof (cases "dest_index < bound")
    case False
    then show ?thesis by (subst sort_pass.simps) simp
  next
    case True
    let ?zs = "if compare_dest S (ys ! dest_index) (ys ! (dest_index + 1)) < 0
           then ys[dest_index := ys ! (dest_index + 1), dest_index + 1 := ys ! dest_index]
           else ys"
    have k: "dest_index + 1 < length ys" using True "1.prems" by simp
    then have m: "mset ?zs = mset ys" by (simp add: mset_swap)
    have "bound < length ?zs" using "1.prems" by simp
    then have "mset (sort_pass S bound (dest_index + 1) ?zs) = mset ?zs"
      using "1.IH"[OF True] by blast
    then show ?thesis using True m by (subst sort_pass.simps) simp
  qed
qed

lemma sort_pass_length: "bound < length ys \<Longrightarrow> length (sort_pass S bound i ys) = length ys"
  using sort_pass_mset[of bound ys S i] by (metis size_mset)

lemma sort_steps_mset:
  "n \<le> length ys \<Longrightarrow> mset (sort_steps S n step ys) = mset ys"
proof (induction S n step ys rule: sort_steps.induct)
  case (1 S n step ys)
  show ?case
  proof (cases "step < n - 1")
    case False
    then show ?thesis by (subst sort_steps.simps) simp
  next
    case True
    let ?zs = "sort_pass S (n - step - 1) 0 ys"
    have b: "n - step - 1 < length ys" using True "1.prems" by simp
    then have m: "mset ?zs = mset ys" by (rule sort_pass_mset)
    have "n \<le> length ?zs" using b "1.prems" by (simp add: sort_pass_length)
    then have "mset (sort_steps S n (step + 1) ?zs) = mset ?zs"
      using "1.IH"[OF True] by blast
    then show ?thesis using True m by (subst sort_steps.simps) simp
  qed
qed

lemma stable_perm_pair:
  assumes st: "stable_perm S [a, b] ys" and eq: "compare_dest S a b = 0"
  shows "ys = [a, b]"
proof -
  from st obtain p where len: "length ys = length [a, b]"
    and bij: "bij_betw p {..<length [a, b]} {..<length [a, b]}"
    and nth: "\<forall>i<length [a, b]. ys ! p i = [a, b] ! i"
    and ord: "\<forall>i j. i < j \<and> j < length [a, b] \<and>
        compare_dest S ([a, b] ! i) ([a, b] ! j) = 0 \<longrightarrow> p i < p j"
    unfolding stable_perm_def by blast
  have "0 < (1::nat) \<and> 1 < length [a, b] \<and> compare_dest S ([a, b] ! 0) ([a, b] ! 1) = 0"
    using eq by simp
  then have "p 0 < p 1" using ord by blast
  moreover have "p 1 < 2"
  proof -
    have "p 1 \<in> p ` {..<length [a, b]}" by simp
    then have "p 1 \<in> {..<length [a, b]}" using bij unfolding bij_betw_def by blast
    then show ?thesis by simp
  qed
  ultimately have p: "p 0 = 0" "p 1 = 1" by auto
  have "ys ! p 0 = [a, b] ! 0" "ys ! p 1 = [a, b] ! 1" using nth by simp_all
  then have "ys ! 0 = a" "ys ! 1 = b" using p by simp_all
  with len show ?thesis
    by (cases ys; cases "tl ys") auto
qed

subsection \<open>The output is ordered\<close>

text \<open>The rank of a destination under a summary: the comparator is the sign of the
  difference of two ranks. A list is dominated from position \<open>m\<close> when every entry at a
  position \<open>j \<ge> m\<close> ranks no higher than every entry before it.\<close>

definition dest_rank :: "source_summary \<Rightarrow> ip_addr_t \<Rightarrow> nat" where
  "dest_rank S x =
     rank (ip_addr_as_ip6 x) (has_ipv6_source_scope_flags S) (has_ipv4_source_scope_flags S)
       (has_source_precedence_label_flags S)"

lemma compare_dest_rank: "compare_dest S x y = prefer_greater (dest_rank S x) (dest_rank S y)"
  by (simp add: compare_dest_def dest_rank_def compare_by_rank)

lemma compare_dest_neg: "compare_dest S x y < 0 \<longleftrightarrow> dest_rank S x < dest_rank S y"
  by (simp add: compare_dest_rank prefer_greater_def)

lemma compare_dest_ge0: "0 \<le> compare_dest S x y \<longleftrightarrow> dest_rank S y \<le> dest_rank S x"
  by (simp add: compare_dest_rank prefer_greater_ge0)

definition dominated :: "source_summary \<Rightarrow> ip_addr_t list \<Rightarrow> nat \<Rightarrow> bool" where
  "dominated S ys m \<longleftrightarrow>
     (\<forall>i j. i < j \<and> m \<le> j \<and> j < length ys \<longrightarrow> dest_rank S (ys ! j) \<le> dest_rank S (ys ! i))"

lemma sort_pass_min:
  "bound < length ys \<Longrightarrow> i \<le> bound \<Longrightarrow>
   \<forall>k<i. dest_rank S (ys ! i) \<le> dest_rank S (ys ! k) \<Longrightarrow>
   length (sort_pass S bound i ys) = length ys \<and>
   (\<forall>k<bound. dest_rank S (sort_pass S bound i ys ! bound) \<le> dest_rank S (sort_pass S bound i ys ! k)) \<and>
   (\<forall>j. bound < j \<and> j < length ys \<longrightarrow> sort_pass S bound i ys ! j = ys ! j) \<and>
   (\<forall>k\<le>bound. \<exists>k'\<le>bound. sort_pass S bound i ys ! k = ys ! k')"
proof (induction S bound i ys rule: sort_pass.induct)
  case (1 S bound i ys)
  show ?case
  proof (cases "i < bound")
    case False
    then have "i = bound" using "1.prems"(2) by simp
    moreover have "sort_pass S bound i ys = ys" using False by (subst sort_pass.simps) simp
    ultimately show ?thesis using "1.prems"(3) by auto
  next
    case True
    let ?sw = "compare_dest S (ys ! i) (ys ! (i + 1)) < 0"
    let ?zs = "if ?sw then ys[i := ys ! (i + 1), i + 1 := ys ! i] else ys"
    have k: "i + 1 < length ys" using True "1.prems"(1) by simp
    have len: "length ?zs = length ys" by simp
    have b: "bound < length ?zs" using "1.prems"(1) by simp
    have i1: "i + 1 \<le> bound" using True by simp
    have min: "\<forall>k<i + 1. dest_rank S (?zs ! (i + 1)) \<le> dest_rank S (?zs ! k)"
    proof (intro allI impI)
      fix k assume "k < i + 1"
      show "dest_rank S (?zs ! (i + 1)) \<le> dest_rank S (?zs ! k)"
      proof (cases ?sw)
        case True
        then have lt: "dest_rank S (ys ! i) < dest_rank S (ys ! (i + 1))"
          by (simp add: compare_dest_neg)
        show ?thesis
        proof (cases "k = i")
          case True
          then show ?thesis using \<open>?sw\<close> lt k by simp
        next
          case False
          then have "k < i" using \<open>k < i + 1\<close> by simp
          then show ?thesis using \<open>?sw\<close> k "1.prems"(3) by simp
        qed
      next
        case False
        then have ge: "dest_rank S (ys ! (i + 1)) \<le> dest_rank S (ys ! i)"
          by (simp add: compare_dest_neg)
        show ?thesis
        proof (cases "k = i")
          case True
          then show ?thesis using \<open>\<not> ?sw\<close> ge by simp
        next
          case False
          then have "k < i" using \<open>k < i + 1\<close> by simp
          then have "dest_rank S (ys ! i) \<le> dest_rank S (ys ! k)" using "1.prems"(3) by simp
          then show ?thesis using \<open>\<not> ?sw\<close> ge by simp
        qed
      qed
    qed
    let ?out = "sort_pass S bound (i + 1) ?zs"
    have IH: "length ?out = length ?zs \<and>
       (\<forall>k<bound. dest_rank S (?out ! bound) \<le> dest_rank S (?out ! k)) \<and>
       (\<forall>j. bound < j \<and> j < length ?zs \<longrightarrow> ?out ! j = ?zs ! j) \<and>
       (\<forall>k\<le>bound. \<exists>k'\<le>bound. ?out ! k = ?zs ! k')"
      using "1.IH"[OF True b i1 min] .
    have eq: "sort_pass S bound i ys = ?out" using True by (subst sort_pass.simps) simp
    have same: "\<forall>j. bound < j \<and> j < length ys \<longrightarrow> ?zs ! j = ys ! j"
      using True by auto
    have src: "\<forall>k\<le>bound. \<exists>k'\<le>bound. ?zs ! k = ys ! k'"
    proof (intro allI impI)
      fix k assume kb: "k \<le> bound"
      show "\<exists>k'\<le>bound. ?zs ! k = ys ! k'"
      proof (cases ?sw)
        case False
        then show ?thesis using kb by auto
      next
        case True
        have "?zs ! k = ys ! (if k = i then i + 1 else if k = i + 1 then i else k)"
          using True k by (simp add: nth_list_update)
        moreover have "(if k = i then i + 1 else if k = i + 1 then i else k) \<le> bound"
          using kb i1 by simp
        ultimately show ?thesis by blast
      qed
    qed
    have "\<forall>k\<le>bound. \<exists>k'\<le>bound. ?out ! k = ys ! k'"
    proof (intro allI impI)
      fix k assume "k \<le> bound"
      then obtain k1 where "k1 \<le> bound" "?out ! k = ?zs ! k1" using IH by blast
      moreover obtain k2 where "k2 \<le> bound" "?zs ! k1 = ys ! k2" using src \<open>k1 \<le> bound\<close> by blast
      ultimately show "\<exists>k'\<le>bound. ?out ! k = ys ! k'" by auto
    qed
    moreover have "\<forall>j. bound < j \<and> j < length ys \<longrightarrow> ?out ! j = ys ! j"
      using IH same len by simp
    ultimately show ?thesis unfolding eq using IH len by simp
  qed
qed


lemma dominated_mono: "dominated S ys m \<Longrightarrow> m \<le> m' \<Longrightarrow> dominated S ys m'"
  by (auto simp: dominated_def)

lemma sort_pass_dominated:
  assumes b: "bound < length ys" and dom: "dominated S ys (bound + 1)"
  shows "dominated S (sort_pass S bound 0 ys) bound"
proof -
  let ?zs = "sort_pass S bound 0 ys"
  have p: "length ?zs = length ys \<and>
     (\<forall>k<bound. dest_rank S (?zs ! bound) \<le> dest_rank S (?zs ! k)) \<and>
     (\<forall>j. bound < j \<and> j < length ys \<longrightarrow> ?zs ! j = ys ! j) \<and>
     (\<forall>k\<le>bound. \<exists>k'\<le>bound. ?zs ! k = ys ! k')"
    by (rule sort_pass_min[OF b]) simp_all
  show ?thesis
    unfolding dominated_def
  proof (intro allI impI, elim conjE)
    fix i j assume ij: "i < j" and bj: "bound \<le> j" and jl: "j < length ?zs"
    show "dest_rank S (?zs ! j) \<le> dest_rank S (?zs ! i)"
    proof (cases "j = bound")
      case True
      then show ?thesis using p ij by simp
    next
      case False
      then have jb: "bound < j" using bj by simp
      then have zj: "?zs ! j = ys ! j" using p jl by simp
      have "\<exists>i'. i' < j \<and> ?zs ! i = ys ! i'"
      proof (cases "i \<le> bound")
        case True
        then obtain i' where "i' \<le> bound" "?zs ! i = ys ! i'" using p by blast
        moreover from this jb have "i' < j" by simp
        ultimately show ?thesis by blast
      next
        case False
        then have "?zs ! i = ys ! i" using p ij jl by simp
        then show ?thesis using ij by auto
      qed
      then obtain i' where i': "i' < j" "?zs ! i = ys ! i'" by blast
      have "dest_rank S (ys ! j) \<le> dest_rank S (ys ! i')"
        using dom i'(1) jb jl p unfolding dominated_def by simp
      then show ?thesis using zj i'(2) by simp
    qed
  qed
qed

lemma sort_steps_dominated:
  "n = length ys \<Longrightarrow> dominated S ys (n - step) \<Longrightarrow> dominated S (sort_steps S n step ys) 1"
proof (induction S n step ys rule: sort_steps.induct)
  case (1 S n step ys)
  show ?case
  proof (cases "step < n - 1")
    case False
    then have "sort_steps S n step ys = ys" by (subst sort_steps.simps) simp
    moreover have "n - step \<le> 1" using False by simp
    ultimately show ?thesis using "1.prems"(2) dominated_mono by simp
  next
    case True
    let ?zs = "sort_pass S (n - step - 1) 0 ys"
    have b: "n - step - 1 < length ys" using True "1.prems"(1) by simp
    have "n - step - 1 + 1 = n - step" using True by simp
    then have "dominated S ys (n - step - 1 + 1)" using "1.prems"(2) by simp
    then have d: "dominated S ?zs (n - step - 1)" by (rule sort_pass_dominated[OF b])
    have len: "n = length ?zs" using b "1.prems"(1) by (simp add: sort_pass_length)
    have "n - (step + 1) = n - step - 1" by simp
    then have "dominated S ?zs (n - (step + 1))" using d by simp
    then have "dominated S (sort_steps S n (step + 1) ?zs) 1"
      using "1.IH"[OF True len] by blast
    then show ?thesis using True by (subst sort_steps.simps) simp
  qed
qed

lemma sort_steps_sorted:
  "sorted_wrt (\<lambda>x y. 0 \<le> compare_dest S x y) (sort_steps S (length xs) 0 xs)"
proof -
  have "dominated S xs (length xs - 0)" by (simp add: dominated_def)
  then have "dominated S (sort_steps S (length xs) 0 xs) 1"
    by (rule sort_steps_dominated[OF refl])
  then show ?thesis
    by (auto simp: sorted_wrt_iff_nth_less dominated_def compare_dest_ge0)
qed

lemma short_list_sorted: "length xs \<le> 1 \<Longrightarrow> sorted_wrt P xs"
  by (cases xs) auto

lemma sorted_pair_swapped:
  assumes "mset ys = mset [a, b]" and "sorted_wrt P ys" and "\<not> P a b"
  shows "ys = [b, a]"
proof -
  have "length ys = 2" using assms(1) by (metis length_Cons list.size(3) size_mset numeral_2_eq_2)
  then obtain x y where ys: "ys = [x, y]"
    by (metis (no_types) length_0_conv length_Suc_conv numeral_2_eq_2)
  then have "{#x, y#} = {#a, b#}" using assms(1) by simp
  then have "(x = a \<and> y = b) \<or> (x = b \<and> y = a)"
    by (auto simp: add_eq_conv_ex)
  then show ?thesis using ys assms(2,3) by auto
qed

text \<open>
  Claim C4. \<^verbatim>\<open>lwip_sortdestinationaddresses\<close> is a stable sort: for every destination list
  and every source list the output is a permutation of the input, it is ordered (no entry
  is followed, anywhere later, by one the comparator prefers to it), and two entries that
  stood at positions \<open>i < j\<close> and compare equal keep their order; the same holds of the
  sorting loops for every source summary \<open>S\<close>; and a list of length 0 or 1 is returned as
  it is.
\<close>

theorem sort_stable_permutation:
  "mset (lwip_sortdestinationaddresses xs srcs) = mset xs \<and>
   sorted_wrt (\<lambda>x y. 0 \<le> compare_dest (summarise_sources srcs) x y)
     (lwip_sortdestinationaddresses xs srcs) \<and>
   stable_perm (summarise_sources srcs) xs (lwip_sortdestinationaddresses xs srcs) \<and>
   stable_perm S xs (sort_steps S (length xs) 0 xs) \<and>
   sorted_wrt (\<lambda>x y. 0 \<le> compare_dest S x y) (sort_steps S (length xs) 0 xs) \<and>
   (length xs \<le> 1 \<longrightarrow> lwip_sortdestinationaddresses xs srcs = xs)"
  by (simp add: lwip_sortdestinationaddresses_def sort_steps_mset sort_steps_stable
      stable_perm_refl sort_steps_sorted short_list_sorted)

section \<open>Scenario 2 of the tests\<close>

text \<open>
  The addresses of \<^verbatim>\<open>sort_dest_ex2_prefer_matching_scope_2\<close> in \<^verbatim>\<open>test_dns.c\<close>: the sources
  \<^verbatim>\<open>fe80::1\<close> and \<^verbatim>\<open>198.51.100.117\<close>, the destinations \<^verbatim>\<open>2001:db8:1::1\<close> (built by the
  test from the groups 0x20010db8, 0x10000, 0x0, 0x1) and \<^verbatim>\<open>198.51.100.121\<close>. An IPv4
  address is written by its four bytes.
\<close>

definition ip4 :: "u8_t \<Rightarrow> u8_t \<Rightarrow> u8_t \<Rightarrow> u8_t \<Rightarrow> u32_t" where
  "ip4 a b c d = push_bit 24 (ucast a) OR push_bit 16 (ucast b) OR push_bit 8 (ucast c) OR ucast d"

definition ex2_sources :: "ip_addr_t list" where
  "ex2_sources = [IPADDR_TYPE_V6 (ip6 0xfe800000 0x0 0x0 0x1), IPADDR_TYPE_V4 (ip4 198 51 100 117)]"

definition ex2_dest_v6 :: ip_addr_t where
  "ex2_dest_v6 = IPADDR_TYPE_V6 (ip6 0x20010db8 0x10000 0x0 0x1)"

definition ex2_dest_v4 :: ip_addr_t where
  "ex2_dest_v4 = IPADDR_TYPE_V4 (ip4 198 51 100 121)"

text \<open>
  Claim C2. With the candidate sources \<^verbatim>\<open>fe80::1\<close> and \<^verbatim>\<open>198.51.100.117\<close>,
  \<^verbatim>\<open>lwip_sortdestinationaddresses\<close> turns the destination list
  [\<^verbatim>\<open>2001:db8:1::1\<close>, \<^verbatim>\<open>198.51.100.121\<close>] into [\<^verbatim>\<open>198.51.100.121\<close>, \<^verbatim>\<open>2001:db8:1::1\<close>],
  and gives the same output for the reversed input.
\<close>

theorem sort_dest_ex2:
  "lwip_sortdestinationaddresses [ex2_dest_v6, ex2_dest_v4] ex2_sources = [ex2_dest_v4, ex2_dest_v6] \<and>
   lwip_sortdestinationaddresses [ex2_dest_v4, ex2_dest_v6] ex2_sources = [ex2_dest_v4, ex2_dest_v6]"
  by code_simp

lemma ex2_summary:
  "summarise_sources ex2_sources =
     \<lparr>has_ipv6_source_scope_flags = 0x4, has_ipv4_source_scope_flags = 0x4000,
      has_source_precedence_label_flags = 0x12\<rparr>"
  by code_simp

text \<open>Two destinations that compare equal under this summary.\<close>

lemma ex_equal: "compare_dest (summarise_sources ex2_sources) ex2_dest_v6 (IPADDR_TYPE_V6 (ip6 0x20010db8 0x20000 0x0 0x1)) = 0"
  by code_simp

theorem sort_stable_permutation_witness:
  "compare_dest (summarise_sources ex2_sources) ex2_dest_v6 ex2_dest_v4 < 0 \<and>
   lwip_sortdestinationaddresses [ex2_dest_v6, ex2_dest_v4] ex2_sources
     = [ex2_dest_v4, ex2_dest_v6] \<and>
   compare_dest (summarise_sources ex2_sources) ex2_dest_v6 (IPADDR_TYPE_V6 (ip6 0x20010db8 0x20000 0x0 0x1)) = 0 \<and>
   lwip_sortdestinationaddresses [ex2_dest_v6, IPADDR_TYPE_V6 (ip6 0x20010db8 0x20000 0x0 0x1)] ex2_sources
     = [ex2_dest_v6, IPADDR_TYPE_V6 (ip6 0x20010db8 0x20000 0x0 0x1)] \<and>
   length [ex2_dest_v4] \<le> 1 \<and>
   lwip_sortdestinationaddresses [ex2_dest_v4] ex2_sources = [ex2_dest_v4]"
proof -
  let ?b = "IPADDR_TYPE_V6 (ip6 0x20010db8 0x20000 0x0 0x1)"
  let ?S = "summarise_sources ex2_sources"
  have lt: "compare_dest ?S ex2_dest_v6 ex2_dest_v4 < 0" by code_simp
  have eq: "compare_dest ?S ex2_dest_v6 ?b = 0" by (rule ex_equal)
  have "mset (lwip_sortdestinationaddresses [ex2_dest_v6, ex2_dest_v4] ex2_sources)
          = mset [ex2_dest_v6, ex2_dest_v4]"
    and "sorted_wrt (\<lambda>x y. 0 \<le> compare_dest ?S x y)
          (lwip_sortdestinationaddresses [ex2_dest_v6, ex2_dest_v4] ex2_sources)"
    using sort_stable_permutation[of "[ex2_dest_v6, ex2_dest_v4]" ex2_sources] by blast+
  then have swapped: "lwip_sortdestinationaddresses [ex2_dest_v6, ex2_dest_v4] ex2_sources
      = [ex2_dest_v4, ex2_dest_v6]"
    using lt by (intro sorted_pair_swapped) auto
  have "stable_perm ?S [ex2_dest_v6, ?b]
      (lwip_sortdestinationaddresses [ex2_dest_v6, ?b] ex2_sources)"
    using sort_stable_permutation[of "[ex2_dest_v6, ?b]" ex2_sources] by blast
  then have kept: "lwip_sortdestinationaddresses [ex2_dest_v6, ?b] ex2_sources = [ex2_dest_v6, ?b]"
    using eq by (rule stable_perm_pair)
  have one: "lwip_sortdestinationaddresses [ex2_dest_v4] ex2_sources = [ex2_dest_v4]"
    using sort_stable_permutation[of "[ex2_dest_v4]" ex2_sources] by simp
  show ?thesis using lt swapped eq kept one by simp
qed

theorem compare_total_preorder_witness:
  "0 \<le> compare_dest (summarise_sources ex2_sources) ex2_dest_v4 ex2_dest_v6 \<and>
   0 \<le> compare_dest (summarise_sources ex2_sources) ex2_dest_v6 (IPADDR_TYPE_V6 (ip6 0x20020000 0x0 0x0 0x1)) \<and>
   0 \<le> compare_dest (summarise_sources ex2_sources) ex2_dest_v4 (IPADDR_TYPE_V6 (ip6 0x20020000 0x0 0x0 0x1))"
proof -
  let ?c = "IPADDR_TYPE_V6 (ip6 0x20020000 0x0 0x0 0x1)"
  let ?S = "summarise_sources ex2_sources"
  have h1: "0 \<le> compare_dest ?S ex2_dest_v4 ex2_dest_v6" by code_simp
  have h2: "0 \<le> compare_dest ?S ex2_dest_v6 ?c" by code_simp
  have "0 \<le> compare_dest ?S ex2_dest_v4 ?c"
    using h1 h2
      compare_total_preorder[of "ip_addr_as_ip6 ex2_dest_v4" "ip_addr_as_ip6 ex2_dest_v6"
        "has_ipv6_source_scope_flags ?S" "has_ipv4_source_scope_flags ?S"
        "has_source_precedence_label_flags ?S" "ip_addr_as_ip6 ?c"]
    unfolding compare_dest_def by blast
  with h1 h2 show ?thesis by simp
qed

theorem mixed_pair_strict_witness:
  "ip6_addr_isipv4mappedipv6 (ip_addr_as_ip6 ex2_dest_v4)
     \<noteq> ip6_addr_isipv4mappedipv6 (ip_addr_as_ip6 ex2_dest_v6) \<and>
   compare_dest (summarise_sources ex2_sources) ex2_dest_v4 ex2_dest_v6 \<noteq> 0"
proof -
  have h: "ip6_addr_isipv4mappedipv6 (ip_addr_as_ip6 ex2_dest_v4)
     \<noteq> ip6_addr_isipv4mappedipv6 (ip_addr_as_ip6 ex2_dest_v6)" by code_simp
  show ?thesis using h mixed_pair_strict[OF h] unfolding compare_dest_def by blast
qed

section \<open>Collecting the candidate source addresses\<close>

text \<open>
  An interface as the collector reads it: its IPv4 address \<^verbatim>\<open>ip_addr\<close> and the
  \<^verbatim>\<open>LWIP_IPV6_NUM_ADDRESSES\<close> slots of \<^verbatim>\<open>ip6_addr[]\<close>, read at indices below that number
  only. The number of slots is a configuration constant that is not in the source at hand;
  it is the parameter \<open>K\<close> of everything below.
\<close>

record netif =
  ip_addr :: u32_t
  ip6_addr :: "nat \<Rightarrow> ip6_addr_t"

text \<open>Modelled from the spec: \<^verbatim>\<open>ip4_addr_cmp(a, IP4_ADDR_ANY4)\<close> and \<^verbatim>\<open>ip6_addr_isany_val\<close>
  (headers \<^verbatim>\<open>ip4_addr.h\<close>, \<^verbatim>\<open>ip6_addr.h\<close>): the tests for a zero address.\<close>

definition ip4_addr_isany_val :: "u32_t \<Rightarrow> bool" where
  "ip4_addr_isany_val a \<longleftrightarrow> a = 0"

definition ip6_addr_isany_val :: "ip6_addr_t \<Rightarrow> bool" where
  "ip6_addr_isany_val a \<longleftrightarrow> addr0 a = 0 \<and> addr1 a = 0 \<and> addr2 a = 0 \<and> addr3 a = 0"

definition MAX_CAND_SOURCE_ADDRESSES :: "nat \<Rightarrow> nat" where
  "MAX_CAND_SOURCE_ADDRESSES LWIP_IPV6_NUM_ADDRESSES = (LWIP_IPV6_NUM_ADDRESSES + 1) * 6"

text \<open>
  The candidate array is a local of \<^verbatim>\<open>MAX_CAND_SOURCE_ADDRESSES\<close> pointers, not initialised,
  and its count is a \<^verbatim>\<open>u8_t\<close>. A write at an index outside the array and a read of an entry
  never written are the errors of the model. \<open>emit\<close> is the guarded store
  \<^verbatim>\<open>if (... && count < MAX) { list[count] = addr; count++; }\<close>, the comparison being made
  in \<^verbatim>\<open>int\<close>.
\<close>

datatype mem_error = Write_Out_Of_Bounds | Read_Uninitialised

record cand_state =
  cand_source_addr_list :: "ip_addr_t option list"
  cand_source_addr_list_count :: u8_t

definition emit :: "nat \<Rightarrow> ip_addr_t \<Rightarrow> cand_state \<Rightarrow> mem_error + cand_state" where
  "emit K a st =
     (if unat (cand_source_addr_list_count st) < MAX_CAND_SOURCE_ADDRESSES K then
        (if unat (cand_source_addr_list_count st) < length (cand_source_addr_list st)
         then Inr \<lparr>cand_source_addr_list =
                     (cand_source_addr_list st)[unat (cand_source_addr_list_count st) := Some a],
                   cand_source_addr_list_count = cand_source_addr_list_count st + 1\<rparr>
         else Inl Write_Out_Of_Bounds)
      else Inr st)"

text \<open>The loop over the IPv6 slots of one interface, the body of \<^verbatim>\<open>NETIF_FOREACH\<close> for one
  interface, and the walk over the interface list.\<close>

function collect_ip6 :: "nat \<Rightarrow> netif \<Rightarrow> nat \<Rightarrow> cand_state \<Rightarrow> mem_error + cand_state" where
  "collect_ip6 K nif if_addr_index st =
     (if if_addr_index < K then
        (if \<not> ip6_addr_isany_val (ip6_addr nif if_addr_index) then
           (case emit K (IPADDR_TYPE_V6 (ip6_addr nif if_addr_index)) st of
              Inl e \<Rightarrow> Inl e
            | Inr st' \<Rightarrow> collect_ip6 K nif (if_addr_index + 1) st')
         else collect_ip6 K nif (if_addr_index + 1) st)
      else Inr st)"
  by pat_completeness auto
termination
  by (relation "measure (\<lambda>(K, nif, if_addr_index, st). K - if_addr_index)") auto

declare collect_ip6.simps [simp del]

definition collect_netif :: "nat \<Rightarrow> netif \<Rightarrow> cand_state \<Rightarrow> mem_error + cand_state" where
  "collect_netif K nif st =
     (if \<not> ip4_addr_isany_val (ip_addr nif) then
        (case emit K (IPADDR_TYPE_V4 (ip_addr nif)) st of
           Inl e \<Rightarrow> Inl e
         | Inr st' \<Rightarrow> collect_ip6 K nif 0 st')
      else collect_ip6 K nif 0 st)"

fun collect_netifs :: "nat \<Rightarrow> netif list \<Rightarrow> cand_state \<Rightarrow> mem_error + cand_state" where
  "collect_netifs K [] st = Inr st"
| "collect_netifs K (nif # rest) st =
     (case collect_netif K nif st of Inl e \<Rightarrow> Inl e | Inr st' \<Rightarrow> collect_netifs K rest st')"

definition collect_sources :: "nat \<Rightarrow> netif list \<Rightarrow> mem_error + cand_state" where
  "collect_sources K netif_list =
     collect_netifs K netif_list
       \<lparr>cand_source_addr_list = replicate (MAX_CAND_SOURCE_ADDRESSES K) None,
        cand_source_addr_list_count = 0\<rparr>"

text \<open>The first \<^verbatim>\<open>cand_source_addr_list_count\<close> entries of the array, as
  \<^verbatim>\<open>lwip_sortdestinationaddresses\<close> reads them.\<close>

fun read_cands :: "ip_addr_t option list \<Rightarrow> mem_error + ip_addr_t list" where
  "read_cands [] = Inr []"
| "read_cands (None # rest) = Inl Read_Uninitialised"
| "read_cands (Some a # rest) = (case read_cands rest of Inl e \<Rightarrow> Inl e | Inr as \<Rightarrow> Inr (a # as))"

definition dns_sort_destination_addresses ::
  "nat \<Rightarrow> netif list \<Rightarrow> ip_addr_t list \<Rightarrow> mem_error + ip_addr_t list" where
  "dns_sort_destination_addresses K netif_list dest_addr_list =
     (if length dest_addr_list \<le> 1 then Inr dest_addr_list
      else case collect_sources K netif_list of
             Inl e \<Rightarrow> Inl e
           | Inr st \<Rightarrow>
              (case read_cands (take (unat (cand_source_addr_list_count st)) (cand_source_addr_list st)) of
                 Inl e \<Rightarrow> Inl e
               | Inr srcs \<Rightarrow> Inr (lwip_sortdestinationaddresses dest_addr_list srcs)))"
























text \<open>The candidate list that \<^verbatim>\<open>dns_sort_destination_addresses\<close> hands to
  \<^verbatim>\<open>lwip_sortdestinationaddresses\<close>: the entries of the array below the count.\<close>

definition handed_on :: "nat \<Rightarrow> netif list \<Rightarrow> mem_error + ip_addr_t list" where
  "handed_on K nifs =
     (case collect_sources K nifs of
        Inl e \<Rightarrow> Inl e
      | Inr st \<Rightarrow>
          read_cands (take (unat (cand_source_addr_list_count st)) (cand_source_addr_list st)))"

lemma dns_sort_by_handed_on:
  "dns_sort_destination_addresses K nifs dest_addr_list =
     (if length dest_addr_list \<le> 1 then Inr dest_addr_list
      else case handed_on K nifs of
             Inl e \<Rightarrow> Inl e
           | Inr srcs \<Rightarrow> Inr (lwip_sortdestinationaddresses dest_addr_list srcs))"
  by (simp add: dns_sort_destination_addresses_def handed_on_def split: sum.splits)









section \<open>The service string of lwip_getaddrinfo\<close>

text \<open>
  \<^verbatim>\<open>atoi\<close> of the C library, as the library of the unit tests' host computes it:
  \<^verbatim>\<open>(int) strtol(s, NULL, 10)\<close> with a 64-bit \<^verbatim>\<open>long\<close>. \<^verbatim>\<open>strtol\<close> skips leading white
  space, reads an optional sign and then the longest run of decimal digits, and ignores
  whatever follows; with no digit to read it returns 0, and a value outside the range of
  \<^verbatim>\<open>long\<close> is held at \<^verbatim>\<open>LONG_MIN\<close> or \<^verbatim>\<open>LONG_MAX\<close>. The conversion to \<^verbatim>\<open>int\<close> keeps the
  low 32 bits, read as two's complement, so a number beyond \<^verbatim>\<open>INT_MAX\<close> wraps around.
  A C string is the list of its characters before the terminating NUL.
\<close>

definition isspace :: "char \<Rightarrow> bool" where
  "isspace c \<longleftrightarrow> c = CHR '' '' \<or> (9 :: int) \<le> of_char c \<and> of_char c \<le> (13 :: int)"

definition isdigit :: "char \<Rightarrow> bool" where
  "isdigit c \<longleftrightarrow> (48 :: int) \<le> of_char c \<and> of_char c \<le> (57 :: int)"

fun digits_value :: "int \<Rightarrow> string \<Rightarrow> int" where
  "digits_value acc [] = acc"
| "digits_value acc (c # cs) =
     (if isdigit c then digits_value (acc * 10 + (of_char c - 48)) cs else acc)"

definition LONG_MAX :: int where
  "LONG_MAX = 0x7fffffffffffffff"

definition LONG_MIN :: int where
  "LONG_MIN = - 0x8000000000000000"

definition strtol :: "string \<Rightarrow> int" where
  "strtol s =
     (case dropWhile isspace s of
        [] \<Rightarrow> 0
      | c # cs \<Rightarrow>
          if c = CHR ''-'' then max LONG_MIN (- digits_value 0 cs)
          else if c = CHR ''+'' then min LONG_MAX (digits_value 0 cs)
          else min LONG_MAX (digits_value 0 (c # cs)))"

definition atoi :: "string \<Rightarrow> int" where
  "atoi s = sint (word_of_int (strtol s) :: 32 word)"

text \<open>
  The arguments and the result of \<^verbatim>\<open>lwip_getaddrinfo\<close>. Of \<^verbatim>\<open>hints\<close> the function reads the
  family, the socket type, the protocol and two flags; a family that is none of the three
  named ones is \<open>AF_OTHER\<close>. A result record holds the family, socket type and protocol,
  the socket address (port and address; the port is kept as the number that
  \<^verbatim>\<open>lwip_htons\<close> stores in network byte order) and the canonical name. The list of
  records is what following \<^verbatim>\<open>ai_next\<close> from \<^verbatim>\<open>*res\<close> reads.
\<close>

datatype ai_family_t = AF_UNSPEC | AF_INET | AF_INET6 | AF_OTHER

datatype ai_flag = AI_PASSIVE | AI_NUMERICHOST

datatype sockaddr = Sockaddr_in u16_t u32_t | Sockaddr_in6 u16_t ip6_addr_t

record addrinfo_common =
  ai_family :: ai_family_t
  ai_socktype :: int
  ai_protocol :: int

record addrinfo_hints = addrinfo_common +
  ai_flags :: "ai_flag set"

record addrinfo = addrinfo_common +
  ai_addr :: sockaddr
  ai_canonname :: "string option"

text \<open>
  What the function calls outside \<^verbatim>\<open>netdb.c\<close>, as parameters: the literal parser
  \<^verbatim>\<open>ipaddr_aton\<close>, the resolver \<^verbatim>\<open>netconn_gethostbyname_addrtype\<close> (an address, or none for
  an error), the number of \<^verbatim>\<open>MEMP_NETDB\<close> elements \<^verbatim>\<open>memp_malloc\<close> can still hand out, the
  interface list and the two configuration constants.
\<close>

datatype dns_addrtype = NETCONN_DNS_IPV4 | NETCONN_DNS_IPV6 | NETCONN_DNS_IPV4_IPV6

record env =
  ipaddr_aton :: "string \<Rightarrow> ip_addr_t option"
  netconn_gethostbyname_addrtype :: "string \<Rightarrow> dns_addrtype \<Rightarrow> ip_addr_t option"
  memp_netdb_free :: nat
  netif_list :: "netif list"
  LWIP_IPV6_NUM_ADDRESSES :: nat
  DNS_MAX_NAME_LENGTH :: nat

text \<open>The \<^verbatim>\<open>EAI_*\<close> return values, and the memory errors of the model of the source
  collection.\<close>

datatype gai_error =
  EAI_NONAME | EAI_SERVICE | EAI_FAIL | EAI_MEMORY | EAI_FAMILY | Memory_Fault mem_error

text \<open>The family check of the hints, and the parsing of the service string: the stages
  of \<^verbatim>\<open>lwip_getaddrinfo\<close> in the order of the source. \<^verbatim>\<open>servname[0]\<close> of an empty string
  is the NUL, which is not \<^verbatim>\<open>'0'\<close>.\<close>

definition check_family :: "addrinfo_hints option \<Rightarrow> gai_error + ai_family_t" where
  "check_family hints =
     (case hints of
        Some h \<Rightarrow>
          if ai_family h \<noteq> AF_UNSPEC \<and> ai_family h \<noteq> AF_INET \<and> ai_family h \<noteq> AF_INET6
          then Inl EAI_FAMILY else Inr (ai_family h)
      | None \<Rightarrow> Inr AF_UNSPEC)"

definition first_char_is_not_0 :: "string \<Rightarrow> bool" where
  "first_char_is_not_0 servname \<longleftrightarrow> (case servname of [] \<Rightarrow> True | c # cs \<Rightarrow> c \<noteq> CHR ''0'')"

definition parse_service :: "string option \<Rightarrow> gai_error + int" where
  "parse_service servname_opt =
     (case servname_opt of
        None \<Rightarrow> Inr 0
      | Some servname \<Rightarrow>
          let port_nr = atoi servname in
          if port_nr = 0 \<and> first_char_is_not_0 servname then Inl EAI_SERVICE
          else if port_nr < 0 \<or> port_nr > 0xffff then Inl EAI_SERVICE
          else Inr port_nr)"

text \<open>Modelled from the spec: \<^verbatim>\<open>ip_addr_set_any_val\<close>, \<^verbatim>\<open>ip_addr_set_loopback_val\<close> and
  \<^verbatim>\<open>IP_IS_V6_VAL\<close> (header \<^verbatim>\<open>ip_addr.h\<close>): the wildcard and the loopback address of the
  requested family, and the test of the type tag.\<close>

definition ip_addr_set_any_val :: "bool \<Rightarrow> ip_addr_t" where
  "ip_addr_set_any_val is_ipv6 =
     (if is_ipv6 then IPADDR_TYPE_V6 (ip6 0 0 0 0) else IPADDR_TYPE_V4 0)"

definition ip_addr_set_loopback_val :: "bool \<Rightarrow> ip_addr_t" where
  "ip_addr_set_loopback_val is_ipv6 =
     (if is_ipv6 then IPADDR_TYPE_V6 (ip6 0 0 0 1) else IPADDR_TYPE_V4 0x7f000001)"

definition IP_IS_V6_VAL :: "ip_addr_t \<Rightarrow> bool" where
  "IP_IS_V6_VAL a = (case a of IPADDR_TYPE_V6 a6 \<Rightarrow> True | IPADDR_TYPE_V4 a4 \<Rightarrow> False)"

text \<open>
  The resolution stage. With a node name and no \<^verbatim>\<open>AI_NUMERICHOST\<close>, an unspecified family
  asks for an IPv6 and then an IPv4 address, fails when both fail, and sorts what it got
  (\<^verbatim>\<open>LWIP_DNS_DYNAMIC_SORT\<close>); a given family asks once.
\<close>

definition has_flag :: "addrinfo_hints option \<Rightarrow> ai_flag \<Rightarrow> bool" where
  "has_flag hints f = (case hints of None \<Rightarrow> False | Some h \<Rightarrow> f \<in> ai_flags h)"

definition resolve ::
  "env \<Rightarrow> string option \<Rightarrow> addrinfo_hints option \<Rightarrow> ai_family_t \<Rightarrow> gai_error + ip_addr_t list" where
  "resolve e nodename_opt hints family =
     (case nodename_opt of
        Some nodename \<Rightarrow>
          if has_flag hints AI_NUMERICHOST then
            (case ipaddr_aton e nodename of
               None \<Rightarrow> Inl EAI_NONAME
             | Some a \<Rightarrow>
                 if (IP_IS_V6_VAL a \<and> family = AF_INET) \<or> (\<not> IP_IS_V6_VAL a \<and> family = AF_INET6)
                 then Inl EAI_NONAME else Inr [a])
          else if family = AF_UNSPEC then
            (let r6 = netconn_gethostbyname_addrtype e nodename NETCONN_DNS_IPV6;
                 r4 = netconn_gethostbyname_addrtype e nodename NETCONN_DNS_IPV4;
                 addr_list = (case r6 of Some a \<Rightarrow> [a] | None \<Rightarrow> [])
                           @ (case r4 of Some a \<Rightarrow> [a] | None \<Rightarrow> [])
             in if r6 = None \<and> r4 = None then Inl EAI_FAIL
                else (case dns_sort_destination_addresses (LWIP_IPV6_NUM_ADDRESSES e)
                             (netif_list e) addr_list of
                        Inl m \<Rightarrow> Inl (Memory_Fault m)
                      | Inr sorted_list \<Rightarrow> Inr sorted_list))
          else
            (let addrtype = (if family = AF_INET then NETCONN_DNS_IPV4
                         else if family = AF_INET6 then NETCONN_DNS_IPV6
                         else NETCONN_DNS_IPV4_IPV6)
             in case netconn_gethostbyname_addrtype e nodename addrtype of
                  None \<Rightarrow> Inl EAI_FAIL
                | Some a \<Rightarrow> Inr [a])
      | None \<Rightarrow>
          if has_flag hints AI_PASSIVE then Inr [ip_addr_set_any_val (family = AF_INET6)]
          else Inr [ip_addr_set_loopback_val (family = AF_INET6)])"

text \<open>
  The loop that builds the records, from \<^verbatim>\<open>index = addr_count - 1\<close> down to 0;
  \<open>Suc index\<close> records are still to build. Each record is linked to \<^verbatim>\<open>prev_ai\<close>, which
  the loop never assigns, and \<^verbatim>\<open>*res\<close> is the record built last.
\<close>

definition make_addrinfo ::
  "ip_addr_t \<Rightarrow> int \<Rightarrow> addrinfo_hints option \<Rightarrow> string option \<Rightarrow> addrinfo" where
  "make_addrinfo a port_nr hints nodename =
     \<lparr>ai_family = (case a of IPADDR_TYPE_V6 a6 \<Rightarrow> AF_INET6 | IPADDR_TYPE_V4 a4 \<Rightarrow> AF_INET),
      ai_socktype = (case hints of Some h \<Rightarrow> ai_socktype h | None \<Rightarrow> 0),
      ai_protocol = (case hints of Some h \<Rightarrow> ai_protocol h | None \<Rightarrow> 0),
      ai_addr = (case a of
                   IPADDR_TYPE_V6 a6 \<Rightarrow> Sockaddr_in6 (word_of_int port_nr) a6
                 | IPADDR_TYPE_V4 a4 \<Rightarrow> Sockaddr_in (word_of_int port_nr) a4),
      ai_canonname = nodename\<rparr>"

fun build_list ::
  "ip_addr_t list \<Rightarrow> int \<Rightarrow> addrinfo_hints option \<Rightarrow> string option \<Rightarrow>
   nat \<Rightarrow> nat \<Rightarrow> addrinfo list \<Rightarrow> addrinfo list \<Rightarrow> gai_error + addrinfo list" where
  "build_list addr_list port_nr hints nodename 0 pool ai prev_ai = Inr ai"
| "build_list addr_list port_nr hints nodename (Suc index) pool ai prev_ai =
     (if pool = 0 then Inl EAI_MEMORY
      else build_list addr_list port_nr hints nodename index (pool - 1)
             (make_addrinfo (addr_list ! index) port_nr hints nodename # prev_ai) prev_ai)"

definition lwip_getaddrinfo ::
  "env \<Rightarrow> string option \<Rightarrow> string option \<Rightarrow> addrinfo_hints option \<Rightarrow> bool \<Rightarrow>
   gai_error + addrinfo list" where
  "lwip_getaddrinfo e nodename servname hints res_is_null =
     (if res_is_null then Inl EAI_FAIL
      else if nodename = None \<and> servname = None then Inl EAI_NONAME
      else case check_family hints of
        Inl err \<Rightarrow> Inl err
      | Inr family \<Rightarrow>
         (case parse_service servname of
            Inl err \<Rightarrow> Inl err
          | Inr port_nr \<Rightarrow>
             (case resolve e nodename hints family of
                Inl err \<Rightarrow> Inl err
              | Inr addr_list \<Rightarrow>
                 if (case nodename of Some n \<Rightarrow> length n > DNS_MAX_NAME_LENGTH e | None \<Rightarrow> False)
                 then Inl EAI_FAIL
                 else build_list addr_list port_nr hints nodename (length addr_list)
                        (memp_netdb_free e) [] [])))"

text \<open>An environment for a call without a node name: nothing resolves, one record can be
  allocated.\<close>

definition ex_env :: env where
  "ex_env = \<lparr>ipaddr_aton = (\<lambda>n. None), netconn_gethostbyname_addrtype = (\<lambda>n t. None),
     memp_netdb_free = 1, netif_list = [], LWIP_IPV6_NUM_ADDRESSES = 3,
     DNS_MAX_NAME_LENGTH = 256\<rparr>"


text \<open>A decimal integer in the sense of the spec: one digit or more and nothing else,
  with the value the digits denote.\<close>

definition decimal_string :: "string \<Rightarrow> bool" where
  "decimal_string s \<longleftrightarrow> s \<noteq> [] \<and> list_all isdigit s"

definition decimal_value :: "string \<Rightarrow> int" where
  "decimal_value s = foldl (\<lambda>acc c. acc * 10 + (of_char c - 48)) 0 s"

lemma digits_value_all:
  "list_all isdigit s \<Longrightarrow> digits_value acc s = foldl (\<lambda>acc c. acc * 10 + (of_char c - 48)) acc s"
  by (induction s arbitrary: acc) auto

lemma digit_not_space: "isdigit c \<Longrightarrow> \<not> isspace c \<and> c \<noteq> CHR ''-'' \<and> c \<noteq> CHR ''+''"
  by (auto simp: isdigit_def isspace_def)

lemma strtol_decimal:
  assumes d: "decimal_string s" and small: "decimal_value s \<le> LONG_MAX"
  shows "strtol s = decimal_value s"
proof -
  from d obtain c cs where s: "s = c # cs" and c: "isdigit c" and cs: "list_all isdigit cs"
    by (cases s) (auto simp: decimal_string_def)
  have "dropWhile isspace s = s" using s c digit_not_space by simp
  then show ?thesis
    using s c cs digit_not_space[OF c] digits_value_all[of s 0] d small
    by (simp add: strtol_def decimal_value_def decimal_string_def)
qed

lemma foldl_digits_ge:
  fixes acc :: int
  shows "list_all isdigit s \<Longrightarrow> 0 \<le> acc \<Longrightarrow>
    acc \<le> foldl (\<lambda>acc c. acc * 10 + (of_char c - 48)) acc s"
proof (induction s arbitrary: acc)
  case Nil
  then show ?case by simp
next
  case (Cons c s)
  then have "(48::int) \<le> of_char c" by (simp add: isdigit_def)
  then have "acc \<le> acc * 10 + (of_char c - 48)" "0 \<le> acc * 10 + (of_char c - 48)"
    using Cons.prems by simp_all
  then show ?case using Cons.IH[of "acc * 10 + (of_char c - 48)"] Cons.prems by simp
qed

lemma decimal_value_0:
  assumes "decimal_string s" and "decimal_value s = 0"
  shows "\<not> first_char_is_not_0 s"
proof -
  from assms(1) obtain c cs where s: "s = c # cs" and c: "isdigit c" and cs: "list_all isdigit cs"
    by (cases s) (auto simp: decimal_string_def)
  have c0: "(0::int) \<le> of_char c - 48" using c by (simp add: isdigit_def)
  have "(of_char c - 48 :: int) \<le> foldl (\<lambda>acc c. acc * 10 + (of_char c - 48)) (of_char c - 48) cs"
    using foldl_digits_ge[OF cs c0] .
  then have "of_char c - 48 \<le> (0::int)"
    using assms(2) s by (simp add: decimal_value_def)
  then have "(of_char c :: int) = 48" using c0 by simp
  then have "(of_char c :: int) = of_char (CHR ''0'')" by simp
  then have "c = CHR ''0''" by (simp only: of_char_eq_iff)
  then show ?thesis using s by (simp add: first_char_is_not_0_def)
qed

lemma decimal_value_nonneg: "decimal_string s \<Longrightarrow> 0 \<le> decimal_value s"
  using foldl_digits_ge[of s 0] by (simp add: decimal_string_def decimal_value_def)

lemma sint_small: "0 \<le> v \<Longrightarrow> v \<le> 2147483647 \<Longrightarrow> sint (word_of_int v :: 32 word) = v"
  by (simp add: sint_sbintrunc' signed_take_bit_int_eq_self)

lemma atoi_decimal:
  assumes "decimal_string s" and "decimal_value s \<le> 2147483647"
  shows "atoi s = decimal_value s"
proof -
  have "strtol s = decimal_value s"
    using assms by (intro strtol_decimal) (simp_all add: LONG_MAX_def)
  then show ?thesis
    using assms decimal_value_nonneg[OF assms(1)] by (simp add: atoi_def sint_small)
qed

lemma parse_service_decimal:
  assumes "decimal_string s" and "decimal_value s \<le> 2147483647"
  shows "parse_service (Some s) =
     (if decimal_value s \<le> 0xffff then Inr (decimal_value s) else Inl EAI_SERVICE)"
  using decimal_value_0[OF assms(1)] decimal_value_nonneg[OF assms(1)]
  by (auto simp: parse_service_def atoi_decimal[OF assms] Let_def)

lemma build_list_ports:
  "build_list addr_list port_nr hints nodename n pool ai prev_ai = Inr ais \<Longrightarrow>
   \<forall>x \<in> set ai \<union> set prev_ai. \<exists>a. x = make_addrinfo a port_nr hints nodename \<Longrightarrow>
   \<forall>x \<in> set ais. \<exists>a. x = make_addrinfo a port_nr hints nodename"
proof (induction n arbitrary: pool ai)
  case 0
  then show ?case by auto
next
  case (Suc n)
  from Suc.prems(1) have p: "pool \<noteq> 0"
    and b: "build_list addr_list port_nr hints nodename n (pool - 1)
             (make_addrinfo (addr_list ! n) port_nr hints nodename # prev_ai) prev_ai = Inr ais"
    by (auto split: if_splits)
  show ?case
    by (rule Suc.IH[OF b]) (use Suc.prems(2) in auto)
qed

definition sockaddr_port :: "sockaddr \<Rightarrow> u16_t" where
  "sockaddr_port sa = (case sa of Sockaddr_in p a \<Rightarrow> p | Sockaddr_in6 p a \<Rightarrow> p)"

lemma make_addrinfo_port: "sockaddr_port (ai_addr (make_addrinfo a port_nr hints nodename)) = word_of_int port_nr"
  by (cases a) (simp_all add: make_addrinfo_def sockaddr_port_def)


lemma resolve_not_service: "resolve e nodename hints family \<noteq> Inl EAI_SERVICE"
  by (auto simp: resolve_def Let_def split: option.splits sum.splits)

lemma build_list_not_service:
  "build_list addr_list port_nr hints nodename n pool ai prev_ai \<noteq> Inl EAI_SERVICE"
  by (induction n arbitrary: pool ai) auto

lemma getaddrinfo_service_iff:
  assumes "check_family hints = Inr family"
  shows "lwip_getaddrinfo e nodename (Some s) hints False = Inl EAI_SERVICE \<longleftrightarrow>
           parse_service (Some s) = Inl EAI_SERVICE"
proof (cases "parse_service (Some s)")
  case (Inl err)
  then show ?thesis using assms by (simp add: lwip_getaddrinfo_def)
next
  case (Inr port_nr)
  show ?thesis
  proof (cases "resolve e nodename hints family")
    case (Inl err)
    then show ?thesis
      using assms Inr resolve_not_service[of e nodename hints family]
      by (simp add: lwip_getaddrinfo_def)
  next
    case (Inr addr_list)
    then show ?thesis
      using assms \<open>parse_service (Some s) = Inr port_nr\<close> build_list_not_service
      by (simp add: lwip_getaddrinfo_def)
  qed
qed

lemma getaddrinfo_port_stored:
  assumes "lwip_getaddrinfo e nodename servname hints res_is_null = Inr ais" and "x \<in> set ais"
  shows "\<exists>port_nr. parse_service servname = Inr port_nr \<and>
           sockaddr_port (ai_addr x) = word_of_int port_nr"
proof -
  from assms(1) obtain port_nr addr_list where
    p: "parse_service servname = Inr port_nr"
    and b: "build_list addr_list port_nr hints nodename (length addr_list)
                        (memp_netdb_free e) [] [] = Inr ais"
    by (auto simp: lwip_getaddrinfo_def split: if_splits sum.splits)
  have "\<forall>x \<in> set ais. \<exists>a. x = make_addrinfo a port_nr hints nodename"
    by (rule build_list_ports[OF b]) simp
  then obtain a where "x = make_addrinfo a port_nr hints nodename"
    using assms(2) by blast
  then have "sockaddr_port (ai_addr x) = word_of_int port_nr"
    by (simp only: make_addrinfo_port)
  then show ?thesis using p by simp
qed

text \<open>What the service check does on a string of decimal digits: with no node name and
  a record to allocate, a value of at most 65535 gives one result record, which holds
  that value as its port, and a greater value (that fits an \<^verbatim>\<open>int\<close>) gives
  \<^verbatim>\<open>EAI_SERVICE\<close>.\<close>

lemma getaddrinfo_decimal_service:
  assumes d: "decimal_string s" and small: "decimal_value s \<le> 2147483647"
    and fam: "check_family hints = Inr family" and pool: "0 < memp_netdb_free e"
  shows "lwip_getaddrinfo e None (Some s) hints False =
     (if decimal_value s \<le> 0xffff
      then Inr [make_addrinfo
                  (if has_flag hints AI_PASSIVE then ip_addr_set_any_val (family = AF_INET6)
                   else ip_addr_set_loopback_val (family = AF_INET6))
                  (decimal_value s) hints None]
      else Inl EAI_SERVICE)"
proof -
  obtain n where n: "memp_netdb_free e = Suc n" using pool by (cases "memp_netdb_free e") auto
  show ?thesis
    using fam n parse_service_decimal[OF d small]
    by (simp add: lwip_getaddrinfo_def resolve_def)
qed

text \<open>
  Claim C8, at the service string \<^verbatim>\<open>"80abc"\<close> (no node name, no hints, a \<^verbatim>\<open>res\<close> that is not
  null): the string is not a decimal integer, and the call does not return
  \<^verbatim>\<open>EAI_SERVICE\<close>; \<^verbatim>\<open>atoi\<close> reads 80 and ignores the rest, and the call succeeds with the
  loopback address and port 80.
\<close>

theorem getaddrinfo_service_trailing_text:
  "\<not> decimal_string ''80abc'' \<and>
   lwip_getaddrinfo ex_env None (Some ''80abc'') None False =
     Inr [\<lparr>ai_family = AF_INET, ai_socktype = 0, ai_protocol = 0,
           ai_addr = Sockaddr_in 80 0x7f000001, ai_canonname = None\<rparr>]"
  by code_simp

text \<open>Other service strings that are not decimal integers in [0, 65535]: a number in
  another base is accepted as port 0, a number beyond \<^verbatim>\<open>INT_MAX\<close> wraps into the range
  and is accepted, a service name and a negative number are rejected.\<close>

lemma getaddrinfo_service_examples:
  "lwip_getaddrinfo ex_env None (Some ''0x50'') None False =
     Inr [\<lparr>ai_family = AF_INET, ai_socktype = 0, ai_protocol = 0,
           ai_addr = Sockaddr_in 0 0x7f000001, ai_canonname = None\<rparr>]"
  "lwip_getaddrinfo ex_env None (Some ''4294967376'') None False =
     Inr [\<lparr>ai_family = AF_INET, ai_socktype = 0, ai_protocol = 0,
           ai_addr = Sockaddr_in 80 0x7f000001, ai_canonname = None\<rparr>]"
  "lwip_getaddrinfo ex_env None (Some ''http'') None False = Inl EAI_SERVICE"
  "lwip_getaddrinfo ex_env None (Some ''-1'') None False = Inl EAI_SERVICE"
  "lwip_getaddrinfo ex_env None (Some ''65536'') None False = Inl EAI_SERVICE"
  by code_simp+

end
